theory Spec2Isabelle
  imports Complex_Main "HOL-Library.Multiset"
begin

section \<open>JavaScript numbers\<close>

text \<open>
  A JavaScript number is a double. The model keeps the three kinds of special value the
  server can produce (\<open>NaN\<close>, \<open>+Infinity\<close>, \<open>-Infinity\<close>) and takes a finite double to be
  the real number it denotes: rounding, overflow of finite operands and the sign of zero
  are outside the model of the server. The operators follow IEEE 754 on the special
  values; addition is then associative and commutative, with \<open>Fin 0\<close> as its zero.
  The rounding of the doubles is modelled by \<open>fl\<close> further down, for the growth of a
  player by consumption.
\<close>

datatype num = NaN | PInf | NInf | Fin real

fun inf_of_sign :: "real \<Rightarrow> num" where
  "inf_of_sign v = (if v = 0 then NaN else if 0 < v then PInf else NInf)"

instantiation num :: "{comm_monoid_add, minus, times, inverse, ord}"
begin

definition zero_num :: num where
  "zero_num = Fin 0"

fun plus_num :: "num \<Rightarrow> num \<Rightarrow> num" where
  "plus_num NaN _ = NaN"
| "plus_num _ NaN = NaN"
| "plus_num PInf NInf = NaN"
| "plus_num NInf PInf = NaN"
| "plus_num PInf _ = PInf"
| "plus_num _ PInf = PInf"
| "plus_num NInf _ = NInf"
| "plus_num _ NInf = NInf"
| "plus_num (Fin a) (Fin b) = Fin (a + b)"

fun minus_num :: "num \<Rightarrow> num \<Rightarrow> num" where
  "minus_num NaN _ = NaN"
| "minus_num _ NaN = NaN"
| "minus_num PInf PInf = NaN"
| "minus_num NInf NInf = NaN"
| "minus_num PInf _ = PInf"
| "minus_num _ NInf = PInf"
| "minus_num NInf _ = NInf"
| "minus_num _ PInf = NInf"
| "minus_num (Fin a) (Fin b) = Fin (a - b)"

fun times_num :: "num \<Rightarrow> num \<Rightarrow> num" where
  "times_num NaN _ = NaN"
| "times_num _ NaN = NaN"
| "times_num PInf PInf = PInf"
| "times_num PInf NInf = NInf"
| "times_num NInf PInf = NInf"
| "times_num NInf NInf = PInf"
| "times_num PInf (Fin b) = inf_of_sign b"
| "times_num (Fin a) PInf = inf_of_sign a"
| "times_num NInf (Fin b) = inf_of_sign (- b)"
| "times_num (Fin a) NInf = inf_of_sign (- a)"
| "times_num (Fin a) (Fin b) = Fin (a * b)"

fun divide_num :: "num \<Rightarrow> num \<Rightarrow> num" where
  "divide_num NaN _ = NaN"
| "divide_num _ NaN = NaN"
| "divide_num PInf PInf = NaN"
| "divide_num PInf NInf = NaN"
| "divide_num NInf PInf = NaN"
| "divide_num NInf NInf = NaN"
| "divide_num PInf (Fin b) = (if 0 \<le> b then PInf else NInf)"
| "divide_num NInf (Fin b) = (if 0 \<le> b then NInf else PInf)"
| "divide_num (Fin a) PInf = Fin 0"
| "divide_num (Fin a) NInf = Fin 0"
| "divide_num (Fin a) (Fin b) = (if b = 0 then inf_of_sign a else Fin (a / b))"

definition inverse_num :: "num \<Rightarrow> num" where
  "inverse_num a = divide (Fin 1) a"

fun less_num :: "num \<Rightarrow> num \<Rightarrow> bool" where
  "less_num (Fin a) (Fin b) = (a < b)"
| "less_num NInf (Fin b) = True"
| "less_num NInf PInf = True"
| "less_num (Fin a) PInf = True"
| "less_num _ _ = False"

fun less_eq_num :: "num \<Rightarrow> num \<Rightarrow> bool" where
  "less_eq_num NaN _ = False"
| "less_eq_num _ NaN = False"
| "less_eq_num (Fin a) (Fin b) = (a \<le> b)"
| "less_eq_num NInf _ = True"
| "less_eq_num _ PInf = True"
| "less_eq_num _ _ = False"

instance
proof
  fix u v w :: num
  show "u + v = v + u"
    by (cases u; cases v; simp)
  show "(u + v) + w = u + (v + w)"
    by (cases u; cases v; cases w; simp)
  show "0 + u = u"
    unfolding zero_num_def by (cases u; simp)
qed

end

text \<open>\<open>Math.max\<close>, \<open>Math.sqrt\<close>, \<open>Math.hypot\<close> and \<open>Math.floor\<close> on two arguments at most.\<close>

fun Math_max :: "num \<Rightarrow> num \<Rightarrow> num" where
  "Math_max NaN _ = NaN"
| "Math_max _ NaN = NaN"
| "Math_max a b = (if a < b then b else a)"

fun Math_sqrt :: "num \<Rightarrow> num" where
  "Math_sqrt NaN = NaN"
| "Math_sqrt PInf = PInf"
| "Math_sqrt NInf = NaN"
| "Math_sqrt (Fin a) = (if a < 0 then NaN else Fin (sqrt a))"

fun Math_hypot :: "num \<Rightarrow> num \<Rightarrow> num" where
  "Math_hypot PInf _ = PInf"
| "Math_hypot NInf _ = PInf"
| "Math_hypot _ PInf = PInf"
| "Math_hypot _ NInf = PInf"
| "Math_hypot NaN _ = NaN"
| "Math_hypot _ NaN = NaN"
| "Math_hypot (Fin a) (Fin b) = Fin (sqrt (a * a + b * b))"

fun Math_floor :: "num \<Rightarrow> num" where
  "Math_floor (Fin a) = Fin (of_int \<lfloor>a\<rfloor>)"
| "Math_floor a = a"

fun isFinite :: "num \<Rightarrow> bool" where
  "isFinite (Fin a) = True"
| "isFinite _ = False"

section \<open>shared/constants.js\<close>

definition MAP_WIDTH :: num where "MAP_WIDTH = Fin 2000"
definition MAP_HEIGHT :: num where "MAP_HEIGHT = Fin 2000"
definition INITIAL_RADIUS :: num where "INITIAL_RADIUS = Fin 10"
definition INITIAL_SPEED :: num where "INITIAL_SPEED = Fin 50"
definition MIN_SPEED :: num where "MIN_SPEED = Fin 2"
definition PELLET_COUNT :: nat where "PELLET_COUNT = 100"
definition PELLET_RADIUS :: num where "PELLET_RADIUS = Fin 4"
definition MAX_PLAYERS :: nat where "MAX_PLAYERS = 50"

text \<open>\<open>Constants.dist\<close>, the utility of the constants object.\<close>

definition Constants_dist :: "num \<Rightarrow> num \<Rightarrow> num \<Rightarrow> num \<Rightarrow> num" where
  "Constants_dist x1 y1 x2 y2 = Math_hypot (x1 - x2) (y1 - y2)"

section \<open>server/server.js: the game state\<close>

text \<open>
  A player object. Its \<open>id\<close> is not a field of the record: an object is created once, in the
  join branch, with a fresh id that never changes, and the \<open>players\<close> Map only ever holds
  an object under its own id, so the id is the address of the object in the store
  (\<open>heap\<close> below). \<open>color\<close> holds the hue \<open>h\<close> of the string \<open>hsl(h, 80%, 60%)\<close>.
\<close>

record player =
  name :: string
  x :: num
  y :: num
  radius :: num
  dirX :: num
  dirY :: num
  color :: num
  score :: num

record pellet =
  px :: num
  py :: num

text \<open>What the server sends: an entry of the \<open>players\<close> array of a message, and the messages.\<close>

record snapshot =
  s_id :: nat
  s_name :: string
  s_x :: num
  s_y :: num
  s_radius :: num
  s_color :: num
  s_score :: num

datatype out =
    Init nat nat "snapshot list" "pellet list"
  | Update "snapshot list" "pellet list"

text \<open>
  The state of the process. \<open>heap\<close> is the store of player objects, by id; \<open>players\<close> is the
  key sequence of the Map \<open>players\<close> in insertion order (the value under key \<open>k\<close> is the
  object \<open>heap k\<close>); \<open>conn_player\<close> is the variable \<open>player\<close> of each connection's
  closure (\<open>None\<close> is \<open>null\<close>); \<open>rnd\<close> is the sequence of values \<open>Math.random()\<close> will
  return; \<open>sent\<close> the messages handed to the sockets, first \<open>Init c id ...\<close> to
  connection \<open>c\<close>; \<open>submitted\<close> the final scores handed to the highscore collection by
  \<open>handlePlayerDeath\<close>; \<open>highscoreCollection\<close> says whether the collection is defined.
\<close>

record server =
  heap :: "nat \<Rightarrow> player"
  players :: "nat list"
  pellets :: "pellet list"
  nextPlayerId :: nat
  conn_player :: "nat \<Rightarrow> nat option"
  highscoreCollection :: bool
  rnd :: "nat \<Rightarrow> real"
  sent :: "out list"
  submitted :: "(string \<times> num) list"

definition Math_random :: "server \<Rightarrow> num \<times> server" where
  "Math_random s = (Fin (rnd s 0), s\<lparr>rnd := (\<lambda>n. rnd s (Suc n))\<rparr>)"

text \<open>\<open>Map.prototype.set\<close> and \<open>delete\<close> on the key sequence.\<close>

definition Map_set :: "nat \<Rightarrow> nat list \<Rightarrow> nat list" where
  "Map_set k ks = (if k \<in> set ks then ks else ks @ [k])"

definition Map_delete :: "nat \<Rightarrow> nat list \<Rightarrow> nat list" where
  "Map_delete k ks = removeAll k ks"

fun initPelletsLoop :: "nat \<Rightarrow> server \<Rightarrow> server" where
  "initPelletsLoop 0 s = s"
| "initPelletsLoop (Suc n) s =
     (case Math_random s of (r1, s1) \<Rightarrow>
      case Math_random s1 of (r2, s2) \<Rightarrow>
        initPelletsLoop n
          (s2\<lparr>pellets := pellets s2 @ [\<lparr>px = r1 * MAP_WIDTH, py = r2 * MAP_HEIGHT\<rparr>]\<rparr>))"

definition initPellets :: "server \<Rightarrow> server" where
  "initPellets s = initPelletsLoop PELLET_COUNT (s\<lparr>pellets := []\<rparr>)"

definition getRandomSpawn :: "server \<Rightarrow> (num \<times> num) \<times> server" where
  "getRandomSpawn s =
     (let margin = Fin 50 in
      case Math_random s of (r1, s1) \<Rightarrow>
      case Math_random s1 of (r2, s2) \<Rightarrow>
        ((margin + r1 * (MAP_WIDTH - Fin 2 * margin),
          margin + r2 * (MAP_HEIGHT - Fin 2 * margin)), s2))"

definition getRandomColor :: "server \<Rightarrow> num \<times> server" where
  "getRandomColor s =
     (case Math_random s of (r, s1) \<Rightarrow> (Math_floor (r * Fin 360), s1))"

section \<open>server/server.js: messages from a connection\<close>

text \<open>
  The result of \<open>JSON.parse(data)\<close>: a parse error, \<open>null\<close>, or a value whose properties
  can be read. A message is the map from property names to values (\<open>Undefined\<close> for a
  property the object does not have); numbers, strings, booleans and arrays at top level
  have none of the properties the handler reads and behave as the empty object.
  \<open>Object\<close> stands for any array or object as a property value.
\<close>

datatype jsval = Undefined | Null | Bool bool | Num num | Str string | Object

type_synonym msg = "string \<Rightarrow> jsval"

datatype data = Malformed | ParsedNull | Parsed msg

datatype error = TypeError

fun truthy :: "jsval \<Rightarrow> bool" where
  "truthy Undefined = False"
| "truthy Null = False"
| "truthy (Bool b) = b"
| "truthy (Num NaN) = False"
| "truthy (Num (Fin a)) = (a \<noteq> 0)"
| "truthy (Num _) = True"
| "truthy (Str n) = (n \<noteq> [])"
| "truthy Object = True"

text \<open>
  \<open>msg.name ? msg.name.substring(0, 15) : 'Player'\<close>: a truthy value that is not a string
  has no \<open>substring\<close> method, and the call throws. A string is the list of its code
  units.
\<close>

fun nickname :: "jsval \<Rightarrow> error + string" where
  "nickname (Str n) = Inr (if n \<noteq> [] then take 15 n else ''Player'')"
| "nickname v = (if truthy v then Inl TypeError else Inr ''Player'')"

definition snapshot_raw :: "server \<Rightarrow> nat \<Rightarrow> snapshot" where
  "snapshot_raw s k =
     (let p = heap s k in
      \<lparr>s_id = k, s_name = name p, s_x = x p, s_y = y p, s_radius = radius p,
       s_color = color p, s_score = score p\<rparr>)"

definition snapshot_floor :: "server \<Rightarrow> nat \<Rightarrow> snapshot" where
  "snapshot_floor s k =
     (let p = heap s k in
      \<lparr>s_id = k, s_name = name p, s_x = x p, s_y = y p, s_radius = radius p,
       s_color = color p, s_score = Math_floor (score p)\<rparr>)"

text \<open>
  The join branch. The init message is recorded when it is built; the \<open>highscores\<close> the
  database may add to it are not part of the model.
\<close>

definition join :: "nat \<Rightarrow> msg \<Rightarrow> server \<Rightarrow> error + server" where
  "join c m s =
     (case nickname (m ''name'') of
        Inl e \<Rightarrow> Inl e
      | Inr nick \<Rightarrow>
         (case getRandomSpawn s of (spawn, s1) \<Rightarrow>
          let k = nextPlayerId s1;
              s2 = s1\<lparr>nextPlayerId := k + 1\<rparr>
          in case getRandomColor s2 of (col, s3) \<Rightarrow>
          let player = \<lparr>name = nick, x = fst spawn, y = snd spawn, radius = INITIAL_RADIUS,
                        dirX = Fin 0, dirY = Fin 0, color = col,
                        score = INITIAL_RADIUS * INITIAL_RADIUS\<rparr>;
              s4 = s3\<lparr>heap := (heap s3)(k := player),
                      conn_player := (conn_player s3)(c := Some k)\<rparr>;
              s5 = s4\<lparr>players := Map_set k (players s4)\<rparr>;
              currentPlayers = map (snapshot_raw s5) (players s5);
              initMsg = Init c k currentPlayers (pellets s5)
          in Inr (s5\<lparr>sent := sent s5 @ [initMsg]\<rparr>)))"

text \<open>The input branch, for a connection whose \<open>player\<close> is the object \<open>k\<close>.\<close>

definition input :: "nat \<Rightarrow> msg \<Rightarrow> server \<Rightarrow> server" where
  "input k m s =
     (case (m ''dx'', m ''dy'') of
        (Num dx, Num dy) \<Rightarrow>
          (let mag = Math_hypot dx dy in
           if mag > Fin 0
           then s\<lparr>heap := (heap s)(k := (heap s k)\<lparr>dirX := dx / mag, dirY := dy / mag\<rparr>)\<rparr>
           else s\<lparr>heap := (heap s)(k := (heap s k)\<lparr>dirX := Fin 0, dirY := Fin 0\<rparr>)\<rparr>)
      | _ \<Rightarrow> s)"

definition onMessage :: "nat \<Rightarrow> data \<Rightarrow> server \<Rightarrow> error + server" where
  "onMessage c d s =
     (case d of
        Malformed \<Rightarrow> Inr s
      | ParsedNull \<Rightarrow> Inl TypeError
      | Parsed m \<Rightarrow>
          if m ''type'' = Str ''join'' then join c m s
          else (case conn_player s c of
                  Some k \<Rightarrow> if m ''type'' = Str ''input'' then Inr (input k m s) else Inr s
                | None \<Rightarrow> Inr s))"

definition onClose :: "nat \<Rightarrow> server \<Rightarrow> server" where
  "onClose c s =
     (case conn_player s c of
        Some k \<Rightarrow> s\<lparr>players := Map_delete k (players s)\<rparr>
      | None \<Rightarrow> s)"

section \<open>server/server.js: the game loop\<close>

text \<open>
  The body of the first \<open>players.forEach\<close>: move one player and keep it in the map;
  \<open>moveStep k\<close> is the callback applied to the object \<open>k\<close>.
\<close>

definition movePlayer :: "player \<Rightarrow> player" where
  "movePlayer player =
     (let speed = Math_max MIN_SPEED (INITIAL_SPEED / radius player);
          p1 = player\<lparr>x := x player + dirX player * speed\<rparr>;
          p2 = p1\<lparr>y := y p1 + dirY p1 * speed\<rparr>;
          p3 = (if x p2 < radius p2 then p2\<lparr>x := radius p2\<rparr> else p2);
          p4 = (if y p3 < radius p3 then p3\<lparr>y := radius p3\<rparr> else p3);
          p5 = (if x p4 > MAP_WIDTH - radius p4 then p4\<lparr>x := MAP_WIDTH - radius p4\<rparr> else p4);
          p6 = (if y p5 > MAP_HEIGHT - radius p5 then p5\<lparr>y := MAP_HEIGHT - radius p5\<rparr> else p5)
      in p6)"

definition moveStep :: "nat \<Rightarrow> server \<Rightarrow> server" where
  "moveStep k s = s\<lparr>heap := (heap s)(k := movePlayer (heap s k))\<rparr>"

definition movePhase :: "server \<Rightarrow> server" where
  "movePhase s = fold moveStep (players s) s"

text \<open>
  The body of the \<open>for\<close> loop over the pellets, for the player \<open>k\<close> and the index \<open>i\<close>;
  \<open>consumePellet\<close> is what the block does to the player object.
\<close>

definition consumePellet :: "player \<Rightarrow> player" where
  "consumePellet player =
     (let oldArea = radius player * radius player;
          pelletArea = PELLET_RADIUS * PELLET_RADIUS;
          newArea = oldArea + pelletArea
      in player\<lparr>radius := Math_sqrt newArea, score := newArea\<rparr>)"

definition eatPellet :: "nat \<Rightarrow> nat \<Rightarrow> server \<Rightarrow> server" where
  "eatPellet k i s =
     (let player = heap s k;
          px = px (pellets s ! i);
          py = py (pellets s ! i)
      in if Constants_dist (x player) (y player) px py < radius player
         then (let s1 = s\<lparr>heap := (heap s)(k := consumePellet player)\<rparr>
               in case Math_random s1 of (r1, s2) \<Rightarrow>
                  let s3 = s2\<lparr>pellets := (pellets s2)[i := (pellets s2 ! i)\<lparr>px := r1 * MAP_WIDTH\<rparr>]\<rparr>
                  in case Math_random s3 of (r2, s4) \<Rightarrow>
                     s4\<lparr>pellets := (pellets s4)[i := (pellets s4 ! i)\<lparr>py := r2 * MAP_HEIGHT\<rparr>]\<rparr>)
         else s)"

text \<open>
  \<open>pelletLoop k\<close> is the callback of the second \<open>players.forEach\<close>. The index runs
  below \<open>pellets.length\<close>, which no assignment in the loop changes
  (\<open>eatPellet_frame\<close> below).
\<close>

definition pelletLoop :: "nat \<Rightarrow> server \<Rightarrow> server" where
  "pelletLoop k s = fold (eatPellet k) [0..<length (pellets s)] s"

definition pelletPhase :: "server \<Rightarrow> server" where
  "pelletPhase s = fold pelletLoop (players s) s"

definition handlePlayerDeath :: "nat \<Rightarrow> server \<Rightarrow> server" where
  "handlePlayerDeath k s =
     (let player = heap s k;
          s1 = (if highscoreCollection s
                then s\<lparr>submitted := submitted s @ [(name player, Math_floor (score player))]\<rparr>
                else s)
      in case getRandomSpawn s1 of (spawn, s2) \<Rightarrow>
         let s3 = s2\<lparr>heap := (heap s2)(k := (heap s2 k)
                    \<lparr>x := fst spawn, y := snd spawn, radius := INITIAL_RADIUS,
                     score := INITIAL_RADIUS * INITIAL_RADIUS, dirX := Fin 0, dirY := Fin 0\<rparr>)\<rparr>
         in s3\<lparr>players := Map_set k (players s3)\<rparr>)"

text \<open>
  The body of the inner \<open>players.forEach\<close> of the player-vs-player pass, for the objects
  \<open>a\<close> (playerA) and \<open>b\<close> (playerB); the second component is \<open>eatenPlayers\<close>.
  \<open>consumePlayer\<close> is what the block does to playerA.
\<close>

definition consumePlayer :: "player \<Rightarrow> player \<Rightarrow> player" where
  "consumePlayer playerA playerB =
     (let areaA = radius playerA * radius playerA;
          areaB = radius playerB * radius playerB;
          newAreaA = areaA + areaB
      in playerA\<lparr>radius := Math_sqrt newAreaA, score := newAreaA\<rparr>)"

definition eatPlayer :: "nat \<Rightarrow> nat \<Rightarrow> server \<times> nat list \<Rightarrow> server \<times> nat list" where
  "eatPlayer a b st =
     (case st of (s, eatenPlayers) \<Rightarrow>
      let playerA = heap s a; playerB = heap s b in
      if a = b then st
      else if radius playerA < radius playerB then st
      else let d = Constants_dist (x playerA) (y playerA) (x playerB) (y playerB) in
        if d < radius playerA * Fin (9 / 10)
        then (if b \<notin> set eatenPlayers
              then (let eatenPlayers' = eatenPlayers @ [b];
                        s1 = s\<lparr>heap := (heap s)(a := consumePlayer playerA playerB)\<rparr>
                    in (handlePlayerDeath b s1, eatenPlayers'))
              else st)
        else st)"

definition eatLoop :: "nat \<Rightarrow> server \<times> nat list \<Rightarrow> server \<times> nat list" where
  "eatLoop a st = fold (eatPlayer a) (players (fst st)) st"

definition playerPhase :: "server \<Rightarrow> server \<times> nat list" where
  "playerPhase s = fold eatLoop (players s) (s, [])"

definition removeEaten :: "nat list \<Rightarrow> server \<Rightarrow> server" where
  "removeEaten eatenPlayers s =
     fold (\<lambda>k s. s\<lparr>players := Map_delete k (players s)\<rparr>) eatenPlayers s"

definition stateUpdate :: "server \<Rightarrow> out" where
  "stateUpdate s = Update (map (snapshot_floor s) (players s)) (pellets s)"

definition broadcast :: "server \<Rightarrow> server" where
  "broadcast s = s\<lparr>sent := sent s @ [stateUpdate s]\<rparr>"

text \<open>The state when the third pass is over, with \<open>eatenPlayers\<close>.\<close>

definition collided :: "server \<Rightarrow> server \<times> nat list" where
  "collided s = playerPhase (pelletPhase (movePhase s))"

definition tick :: "server \<Rightarrow> server" where
  "tick s = (case collided s of (s3, eatenPlayers) \<Rightarrow> broadcast (removeEaten eatenPlayers s3))"

section \<open>server/server.js: the process\<close>

datatype event = Message nat data | Close nat | Tick

fun step :: "event \<Rightarrow> server \<Rightarrow> error + server" where
  "step (Message c d) s = onMessage c d s"
| "step (Close c) s = Inr (onClose c s)"
| "step Tick s = Inr (tick s)"

text \<open>An exception that leaves a handler is not caught anywhere: the process ends.\<close>

fun run :: "event list \<Rightarrow> server \<Rightarrow> error + server" where
  "run [] s = Inr s"
| "run (e # es) s = (case step e s of Inl err \<Rightarrow> Inl err | Inr s' \<Rightarrow> run es s')"

text \<open>
  The state once the module is loaded: no player, the pellets placed. Addresses of the
  store that hold no object yet hold \<open>no_player\<close>, which nothing reads.
\<close>

definition no_player :: player where
  "no_player = \<lparr>name = [], x = Fin 0, y = Fin 0, radius = Fin 0, dirX = Fin 0, dirY = Fin 0,
                color = Fin 0, score = Fin 0\<rparr>"

definition boot :: "(nat \<Rightarrow> real) \<Rightarrow> bool \<Rightarrow> server" where
  "boot r db =
     initPellets \<lparr>heap = (\<lambda>_. no_player), players = [], pellets = [], nextPlayerId = 1,
                  conn_player = (\<lambda>_. None), highscoreCollection = db, rnd = r,
                  sent = [], submitted = []\<rparr>"

section \<open>Predicates and worlds used in the statements\<close>

text \<open>A pellet lies in the map: \<open>0 \<le> x < MAP_WIDTH\<close> and \<open>0 \<le> y < MAP_HEIGHT\<close>.\<close>

definition in_map :: "pellet \<Rightarrow> bool" where
  "in_map q = (Fin 0 \<le> px q \<and> px q < MAP_WIDTH \<and> Fin 0 \<le> py q \<and> py q < MAP_HEIGHT)"

text \<open>\<open>Math.random()\<close> returns a value in \<open>[0, 1)\<close>.\<close>

definition unit_rnd :: "server \<Rightarrow> bool" where
  "unit_rnd s = (\<forall>n. 0 \<le> rnd s n \<and> rnd s n < 1)"

text \<open>Every pellet of \<open>s\<close> is the pellet of \<open>orig\<close> at its index or lies in the map.\<close>

definition relocated :: "pellet list \<Rightarrow> server \<Rightarrow> bool" where
  "relocated orig s =
     (unit_rnd s \<and> length (pellets s) = length orig \<and>
      (\<forall>i < length orig. pellets s ! i = orig ! i \<or> in_map (pellets s ! i)))"

text \<open>
  The scenario of the specification: A (id 1, radius 20) and B (id 2, radius 5) at
  distance 3, nobody moving, no pellet, every random value \<open>1/2\<close>.
\<close>

definition pA :: player where
  "pA = \<lparr>name = ''A'', x = Fin 100, y = Fin 100, radius = Fin 20, dirX = Fin 0, dirY = Fin 0,
         color = Fin 0, score = Fin 400\<rparr>"

definition pB :: player where
  "pB = \<lparr>name = ''B'', x = Fin 103, y = Fin 100, radius = Fin 5, dirX = Fin 0, dirY = Fin 0,
         color = Fin 120, score = Fin 25\<rparr>"

definition duel :: server where
  "duel = \<lparr>heap = (\<lambda>_. no_player)(1 := pA, 2 := pB), players = [1, 2], pellets = [],
           nextPlayerId = 3, conn_player = (\<lambda>_. None)(0 := Some 1, 1 := Some 2),
           highscoreCollection = True, rnd = (\<lambda>_. 1 / 2), sent = [], submitted = []\<rparr>"

text \<open>The scenario \<open>duel\<close> with one pellet, ten units to the right of A.\<close>

definition one_pellet :: server where
  "one_pellet = duel\<lparr>pellets := [\<lparr>px = Fin 110, py = Fin 100\<rparr>]\<rparr>"

text \<open>The circle of a player lies within the map.\<close>

definition within_map :: "player \<Rightarrow> bool" where
  "within_map p =
     (radius p \<le> x p \<and> x p \<le> MAP_WIDTH - radius p \<and>
      radius p \<le> y p \<and> y p \<le> MAP_HEIGHT - radius p)"

text \<open>
  A player the movement pass keeps within the map: a position that is not \<open>NaN\<close>, a finite
  heading, and a finite radius in \<open>(0, 1000]\<close>, at most half the width of the map.
\<close>

definition movable :: "player \<Rightarrow> bool" where
  "movable p =
     (x p \<noteq> NaN \<and> y p \<noteq> NaN \<and> isFinite (dirX p) \<and> isFinite (dirY p) \<and>
      Fin 0 < radius p \<and> radius p \<le> Fin 1000)"

text \<open>
  A player of radius 1010 and area \<open>1020100 = 100 + 63750 * 16\<close>, the baseline grown by
  63750 pellets, alone in the world.
\<close>

definition giant :: player where
  "giant = \<lparr>name = ''G'', x = Fin 500, y = Fin 500, radius = Fin 1010, dirX = Fin 0,
            dirY = Fin 0, color = Fin 0, score = Fin 1020100\<rparr>"

definition crowded :: server where
  "crowded = duel\<lparr>heap := (\<lambda>_. no_player)(1 := giant), players := [1]\<rparr>"

text \<open>
  What a player consumes in a life: a pellet, or another player (the object of the victim
  as it is when eaten). \<open>area_of\<close> is the area the source adds for it.
\<close>

datatype meal = Pellet | Victim player

fun area_of :: "meal \<Rightarrow> num" where
  "area_of Pellet = PELLET_RADIUS * PELLET_RADIUS"
| "area_of (Victim playerB) = radius playerB * radius playerB"

fun consume :: "meal \<Rightarrow> player \<Rightarrow> player" where
  "consume Pellet player = consumePellet player"
| "consume (Victim playerB) playerA = consumePlayer playerA playerB"

text \<open>A player as the join branch and \<open>handlePlayerDeath\<close> make it.\<close>

definition baseline :: player where
  "baseline = \<lparr>name = ''A'', x = Fin 100, y = Fin 100, radius = INITIAL_RADIUS, dirX = Fin 0,
               dirY = Fin 0, color = Fin 0, score = INITIAL_RADIUS * INITIAL_RADIUS\<rparr>"

text \<open>The values a sum of squares can take: \<open>NaN\<close>, \<open>+Infinity\<close> or a finite number from 0.\<close>

fun is_area :: "num \<Rightarrow> bool" where
  "is_area (Fin a) = (0 \<le> a)"
| "is_area NInf = False"
| "is_area _ = True"


definition snack :: player where
  "snack = baseline\<lparr>name := ''B'', radius := Fin 5, score := Fin 25\<rparr>"

text \<open>The state \<open>s\<close> with the heading of the object \<open>k\<close> set, and nothing else changed.\<close>

definition with_heading :: "nat \<Rightarrow> num \<Rightarrow> num \<Rightarrow> server \<Rightarrow> server" where
  "with_heading k dx dy s = s\<lparr>heap := (heap s)(k := (heap s k)\<lparr>dirX := dx, dirY := dy\<rparr>)\<rparr>"

text \<open>The messages \<open>{type: 'input', dx, dy}\<close> and \<open>{type: 'join', name}\<close>.\<close>

definition input_msg :: "jsval \<Rightarrow> jsval \<Rightarrow> msg" where
  "input_msg dx dy = (\<lambda>_. Undefined)(''type'' := Str ''input'', ''dx'' := dx, ''dy'' := dy)"

definition join_msg :: "jsval \<Rightarrow> msg" where
  "join_msg n = (\<lambda>_. Undefined)(''type'' := Str ''join'', ''name'' := n)"


text \<open>
  Two events that differ at most in the \<open>x\<close>, \<open>y\<close>, \<open>radius\<close> and \<open>score\<close> properties of a
  message.
\<close>

fun agree :: "event \<Rightarrow> event \<Rightarrow> bool" where
  "agree (Message c (Parsed m)) (Message c' (Parsed m')) =
     (c = c' \<and> (\<forall>f. f \<notin> {''x'', ''y'', ''radius'', ''score''} \<longrightarrow> m f = m' f))"
| "agree e e' = (e = e')"

text \<open>A message with a position, a radius and a score of the client's choice added.\<close>

definition cheat :: "msg \<Rightarrow> msg" where
  "cheat m = m(''x'' := Num (Fin 1000), ''y'' := Num (Fin 1000), ''radius'' := Num (Fin 500),
               ''score'' := Num (Fin 250000))"

text \<open>Every key of the Map is below the next id: ids are never reused.\<close>

definition fresh :: "server \<Rightarrow> bool" where
  "fresh s = (\<forall>k \<in> set (players s). k < nextPlayerId s)"

text \<open>
  A world with one player whose score is the double \<open>163.99999999999997 = 164 - 2^-45\<close>,
  the value the running server computes for a player that has eaten four pellets
  (\<open>Math.sqrt\<close> and the squaring round).
\<close>

definition veteran :: player where
  "veteran = \<lparr>name = ''A'', x = Fin 100, y = Fin 100, radius = Fin (sqrt (164 - 1 / 2 ^ 45)),
              dirX = Fin 0, dirY = Fin 0, color = Fin 0, score = Fin (164 - 1 / 2 ^ 45)\<rparr>"

definition rounded :: server where
  "rounded = \<lparr>heap = (\<lambda>_. no_player)(1 := veteran), players = [1], pellets = [],
              nextPlayerId = 2, conn_player = (\<lambda>_. None)(0 := Some 1),
              highscoreCollection = False, rnd = (\<lambda>_. 1 / 2), sent = [], submitted = []\<rparr>"

text \<open>
  \<open>p\<close> is \<open>p0\<close> up to its position, and has \<open>NaN\<close> wherever \<open>p0\<close> has it.
\<close>

definition inert :: "player \<Rightarrow> player \<Rightarrow> bool" where
  "inert p0 p =
     (name p = name p0 \<and> color p = color p0 \<and> radius p = radius p0 \<and> score p = score p0 \<and>
      dirX p = dirX p0 \<and> dirY p = dirY p0 \<and>
      (x p0 = NaN \<longrightarrow> x p = NaN) \<and> (y p0 = NaN \<longrightarrow> y p = NaN))"


text \<open>
  A world with one player whose \<open>x\<close> is \<open>NaN\<close> (an input with \<open>dx = 1e999\<close> puts \<open>NaN\<close>
  into the heading, the next tick into \<open>x\<close>) and whose heading is now \<open>(3/5, 4/5)\<close>.
\<close>

definition lost :: server where
  "lost = duel\<lparr>heap := (\<lambda>_. no_player)(1 := \<lparr>name = ''A'', x = NaN, y = Fin 100, radius = Fin 10,
                     dirX = Fin (3 / 5), dirY = Fin (4 / 5), color = Fin 0, score = Fin 100\<rparr>),
                players := [1]\<rparr>"

text \<open>A player at the baseline radius, at \<open>(100, 100)\<close>.\<close>

definition twin :: player where
  "twin = \<lparr>name = ''A'', x = Fin 100, y = Fin 100, radius = Fin 10, dirX = Fin 0, dirY = Fin 0,
           color = Fin 0, score = Fin 100\<rparr>"

text \<open>
  Three players at the baseline radius on one line: D (id 1) at \<open>x = 112\<close>, A (id 2) at
  \<open>x = 100\<close>, B (id 3) at \<open>x = 103\<close>. The first two random values put the first respawn
  at \<open>(106, 100)\<close>.
\<close>

definition melee :: server where
  "melee = \<lparr>heap = (\<lambda>_. no_player)(1 := twin\<lparr>name := ''D'', x := Fin 112\<rparr>, 2 := twin,
                                        3 := twin\<lparr>name := ''B'', x := Fin 103\<rparr>),
            players = [1, 2, 3], pellets = [], nextPlayerId = 4,
            conn_player = (\<lambda>_. None)(0 := Some 1, 1 := Some 2, 2 := Some 3),
            highscoreCollection = True,
            rnd = (\<lambda>n. if n = 0 then 14 / 475 else if n = 1 then 1 / 38 else 1 / 2),
            sent = [], submitted = []\<rparr>"


text \<open>Two players at the baseline radius at distance 3, alone in the world.\<close>

definition twins :: server where
  "twins = duel\<lparr>heap := (\<lambda>_. no_player)(1 := twin, 2 := twin\<lparr>name := ''B'', x := Fin 103\<rparr>)\<rparr>"


text \<open>
  The highscore collection has received one final score for each entry of
  \<open>eatenPlayers\<close>, when it is defined, on top of the \<open>n\<close> it had.
\<close>

definition counted :: "nat \<Rightarrow> bool \<Rightarrow> server \<times> nat list \<Rightarrow> bool" where
  "counted n hs st =
     (highscoreCollection (fst st) = hs \<and>
      length (submitted (fst st)) = n + (if hs then length (snd st) else 0))"

text \<open>
  The states of a player that keep it out of the collisions of a tick: a coordinate is
  \<open>NaN\<close>, or the radius is \<open>NaN\<close> or \<open>+Infinity\<close>.
\<close>

definition ghost :: "player \<Rightarrow> bool" where
  "ghost p = (x p = NaN \<or> y p = NaN \<or> radius p = NaN \<or> radius p = PInf)"

text \<open>A coordinate of the player is not a finite number.\<close>

definition off_map :: "player \<Rightarrow> bool" where
  "off_map p = (\<not> isFinite (x p) \<or> \<not> isFinite (y p))"

text \<open>The world without the entry \<open>k\<close> of the Map.\<close>

definition departed :: "nat \<Rightarrow> server \<Rightarrow> server" where
  "departed k s = s\<lparr>players := Map_delete k (players s)\<rparr>"

text \<open>
  The world \<open>one_pellet\<close> with two more players close to A and B: G (id 3) with the radius
  \<open>NaN\<close> and H (id 4) with the radius \<open>+Infinity\<close>.
\<close>

definition haunted :: server where
  "haunted = one_pellet\<lparr>heap := (heap one_pellet)
                 (3 := \<lparr>name = ''G'', x = Fin 105, y = Fin 100, radius = NaN, dirX = Fin 0,
                        dirY = Fin 0, color = Fin 0, score = Fin 100\<rparr>,
                  4 := \<lparr>name = ''H'', x = Fin 101, y = Fin 100, radius = PInf, dirX = Fin 0,
                        dirY = Fin 0, color = Fin 0, score = Fin 100\<rparr>),
               players := [1, 2, 3, 4]\<rparr>"

text \<open>
  A (radius 20) at \<open>x = 1980\<close> and B (radius 5) with \<open>x = +Infinity\<close>; and A with B of
  radius \<open>-Infinity\<close> at distance 3.
\<close>

definition stray :: server where
  "stray = duel\<lparr>heap := (\<lambda>_. no_player)(1 := pA\<lparr>x := Fin 1980\<rparr>, 2 := pB\<lparr>x := PInf\<rparr>)\<rparr>"

definition hollow :: server where
  "hollow = duel\<lparr>heap := (\<lambda>_. no_player)(1 := pA, 2 := pB\<lparr>radius := NInf\<rparr>)\<rparr>"

text \<open>
  The state \<open>t\<close> is the state \<open>s\<close> without the entry \<open>k\<close> of the Map: the other objects,
  the pellets, the random values to come and the highscore collection are the same.
\<close>

definition alike :: "nat \<Rightarrow> server \<Rightarrow> server \<Rightarrow> bool" where
  "alike k s t =
     ((\<forall>j. j \<noteq> k \<longrightarrow> heap t j = heap s j) \<and> players t = Map_delete k (players s) \<and>
      pellets t = pellets s \<and> rnd t = rnd s \<and> submitted t = submitted s \<and>
      highscoreCollection t = highscoreCollection s \<and> nextPlayerId t = nextPlayerId s \<and>
      conn_player t = conn_player s)"

text \<open>The world \<open>melee\<close> with every random value \<open>1/2\<close>: a respawn is at \<open>(1000, 1000)\<close>.\<close>

definition trio :: server where
  "trio = melee\<lparr>rnd := (\<lambda>_. 1 / 2)\<rparr>"

text \<open>Every player of the list whose radius is \<open>NaN\<close> has a coordinate that is not finite.\<close>

definition grounded :: "nat list \<Rightarrow> server \<Rightarrow> bool" where
  "grounded ps s = (\<forall>k \<in> set ps. radius (heap s k) = NaN \<longrightarrow> off_map (heap s k))"

text \<open>
  Invariants of the player-vs-player pass for two players \<open>f\<close> and \<open>g\<close>: one of them has
  been eaten, or both are the objects \<open>F\<close> and \<open>G\<close> they were (\<open>pending\<close>); one of them
  has been eaten, or \<open>g\<close> is as it was and \<open>f\<close> is where it was with a radius of at least
  \<open>r\<close> (\<open>holding\<close>).
\<close>

definition pending :: "nat \<Rightarrow> nat \<Rightarrow> player \<Rightarrow> player \<Rightarrow> server \<times> nat list \<Rightarrow> bool" where
  "pending f g F G st =
     (f \<in> set (snd st) \<or> g \<in> set (snd st) \<or> (heap (fst st) f = F \<and> heap (fst st) g = G))"

definition holding :: "nat \<Rightarrow> nat \<Rightarrow> real \<Rightarrow> player \<Rightarrow> player \<Rightarrow> server \<times> nat list \<Rightarrow> bool" where
  "holding f g r F G st =
     (f \<in> set (snd st) \<or> g \<in> set (snd st) \<or>
      (heap (fst st) g = G \<and> x (heap (fst st) f) = x F \<and> y (heap (fst st) f) = y F \<and>
       Fin r \<le> radius (heap (fst st) f)))"

text \<open>
  The arithmetic of the model is exact on finite numbers. The doubles of the running
  server round the result of every operation to the nearest binary64 number, ties to the
  even significand, and overflow to an infinity: \<open>fl\<close> is that rounding. \<open>exponent\<close> is
  the binary exponent of a number (that of the smallest normal number for the subnormal
  ones), \<open>ulp\<close> the distance between neighbouring doubles at that exponent (the
  significand has 53 bits). \<open>Math.sqrt\<close> is taken to return the correctly rounded
  square root, as IEEE 754 requires of squareRoot.
\<close>

definition exponent :: "real \<Rightarrow> int" where
  "exponent v = max \<lfloor>log 2 \<bar>v\<bar>\<rfloor> (- 1022)"

definition ulp :: "real \<Rightarrow> real" where
  "ulp v = 2 powi (exponent v - 52)"

definition nearest_even :: "real \<Rightarrow> int" where
  "nearest_even v =
     (let f = \<lfloor>v\<rfloor> in
      if v - of_int f < 1 / 2 then f
      else if 1 / 2 < v - of_int f then f + 1
      else if even f then f else f + 1)"

definition binary64 :: "real \<Rightarrow> real" where
  "binary64 v = (if v = 0 then 0 else of_int (nearest_even (v / ulp v)) * ulp v)"

fun fl :: "num \<Rightarrow> num" where
  "fl (Fin v) =
     (let w = binary64 v in
      if 2 ^ 1024 \<le> \<bar>w\<bar> then (if 0 < w then PInf else NInf) else Fin w)"
| "fl v = v"

text \<open>
  \<open>near k v w\<close>: \<open>v\<close> is \<open>w\<close> up to \<open>k\<close> roundings, each with a relative error of at
  most the unit roundoff \<open>epsilon = 2^-53\<close>.
\<close>

definition epsilon :: real where
  "epsilon = 1 / 2 ^ 53"

definition near :: "nat \<Rightarrow> real \<Rightarrow> real \<Rightarrow> bool" where
  "near k v w = (w * (1 - epsilon) ^ k \<le> v \<and> v \<le> w * (1 + epsilon) ^ k)"

text \<open>
  The two consumption blocks of the game loop with \<open>rd\<close> applied to the result of every
  operation: \<open>fl\<close> for the doubles, the identity for \<open>consumePellet\<close> and
  \<open>consumePlayer\<close> themselves.
\<close>

definition consumePellet_rd :: "(num \<Rightarrow> num) \<Rightarrow> player \<Rightarrow> player" where
  "consumePellet_rd rd player =
     (let oldArea = rd (radius player * radius player);
          pelletArea = rd (PELLET_RADIUS * PELLET_RADIUS);
          newArea = rd (oldArea + pelletArea)
      in player\<lparr>radius := rd (Math_sqrt newArea), score := newArea\<rparr>)"

definition consumePlayer_rd :: "(num \<Rightarrow> num) \<Rightarrow> player \<Rightarrow> player \<Rightarrow> player" where
  "consumePlayer_rd rd playerA playerB =
     (let areaA = rd (radius playerA * radius playerA);
          areaB = rd (radius playerB * radius playerB);
          newAreaA = rd (areaA + areaB)
      in playerA\<lparr>radius := rd (Math_sqrt newAreaA), score := newAreaA\<rparr>)"

fun consume_rd :: "(num \<Rightarrow> num) \<Rightarrow> meal \<Rightarrow> player \<Rightarrow> player" where
  "consume_rd rd Pellet player = consumePellet_rd rd player"
| "consume_rd rd (Victim playerB) playerA = consumePlayer_rd rd playerA playerB"

text \<open>
  A pellet, or a victim with a finite radius of at least 1; \<open>nominal\<close> is the area of a
  meal as a real number.
\<close>

fun edible :: "meal \<Rightarrow> bool" where
  "edible Pellet = True"
| "edible (Victim playerB) = (case radius playerB of Fin rb \<Rightarrow> 1 \<le> rb | _ \<Rightarrow> False)"

fun nominal :: "meal \<Rightarrow> real" where
  "nominal Pellet = 16"
| "nominal (Victim playerB) = (case radius playerB of Fin rb \<Rightarrow> rb * rb | _ \<Rightarrow> 0)"

text \<open>The real number a finite JavaScript number denotes.\<close>

fun real_of :: "num \<Rightarrow> real" where
  "real_of (Fin a) = a"
| "real_of _ = 0"

section \<open>Frame properties\<close>

lemmas constants_defs =
  MAP_WIDTH_def MAP_HEIGHT_def INITIAL_RADIUS_def INITIAL_SPEED_def MIN_SPEED_def
  PELLET_COUNT_def PELLET_RADIUS_def

lemma Math_random_frame [simp]:
  "heap (snd (Math_random s)) = heap s"
  "players (snd (Math_random s)) = players s"
  "pellets (snd (Math_random s)) = pellets s"
  "nextPlayerId (snd (Math_random s)) = nextPlayerId s"
  "conn_player (snd (Math_random s)) = conn_player s"
  "highscoreCollection (snd (Math_random s)) = highscoreCollection s"
  "sent (snd (Math_random s)) = sent s"
  "submitted (snd (Math_random s)) = submitted s"
  by (simp_all add: Math_random_def)

lemma getRandomSpawn_frame [simp]:
  "heap (snd (getRandomSpawn s)) = heap s"
  "players (snd (getRandomSpawn s)) = players s"
  "pellets (snd (getRandomSpawn s)) = pellets s"
  "nextPlayerId (snd (getRandomSpawn s)) = nextPlayerId s"
  "conn_player (snd (getRandomSpawn s)) = conn_player s"
  "highscoreCollection (snd (getRandomSpawn s)) = highscoreCollection s"
  "sent (snd (getRandomSpawn s)) = sent s"
  "submitted (snd (getRandomSpawn s)) = submitted s"
  by (simp_all add: getRandomSpawn_def Math_random_def Let_def)

lemma handlePlayerDeath_frame [simp]:
  "players (handlePlayerDeath k s) = Map_set k (players s)"
  "pellets (handlePlayerDeath k s) = pellets s"
  "nextPlayerId (handlePlayerDeath k s) = nextPlayerId s"
  "conn_player (handlePlayerDeath k s) = conn_player s"
  "highscoreCollection (handlePlayerDeath k s) = highscoreCollection s"
  "sent (handlePlayerDeath k s) = sent s"
  by (simp_all add: handlePlayerDeath_def getRandomSpawn_def Math_random_def Let_def)

lemma heap_handlePlayerDeath_other:
  "j \<noteq> k \<Longrightarrow> heap (handlePlayerDeath k s) j = heap s j"
  by (simp add: handlePlayerDeath_def getRandomSpawn_def Math_random_def Let_def)

lemma Map_set_member [simp]: "k \<in> set ks \<Longrightarrow> Map_set k ks = ks"
  by (simp add: Map_set_def)

lemma eatPellet_frame [simp]:
  "players (eatPellet k i s) = players s"
  "length (pellets (eatPellet k i s)) = length (pellets s)"
  "nextPlayerId (eatPellet k i s) = nextPlayerId s"
  "conn_player (eatPellet k i s) = conn_player s"
  "highscoreCollection (eatPellet k i s) = highscoreCollection s"
  "sent (eatPellet k i s) = sent s"
  "submitted (eatPellet k i s) = submitted s"
  by (simp_all add: eatPellet_def Math_random_def Let_def)

lemma fold_eatPellet_frame [simp]:
  "players (fold (eatPellet k) is s) = players s"
  "length (pellets (fold (eatPellet k) is s)) = length (pellets s)"
  by (induction "is" arbitrary: s) simp_all

lemma pelletLoop_frame [simp]:
  "players (pelletLoop k s) = players s"
  "length (pellets (pelletLoop k s)) = length (pellets s)"
  by (simp_all add: pelletLoop_def)

lemma pelletPhase_aux:
  "players (fold pelletLoop ks s) = players s
   \<and> length (pellets (fold pelletLoop ks s)) = length (pellets s)"
  by (induction ks arbitrary: s) simp_all

lemma pelletPhase_frame [simp]:
  "players (pelletPhase s) = players s"
  "length (pellets (pelletPhase s)) = length (pellets s)"
  by (simp_all add: pelletPhase_def pelletPhase_aux)

lemma moveStep_frame [simp]:
  "players (moveStep k s) = players s"
  "pellets (moveStep k s) = pellets s"
  "rnd (moveStep k s) = rnd s"
  "heap (moveStep k s) = (heap s)(k := movePlayer (heap s k))"
  by (simp_all add: moveStep_def)

lemma movePhase_aux:
  "players (fold moveStep ks s) = players s
  \<and> pellets (fold moveStep ks s) = pellets s"
  by (induction ks arbitrary: s) simp_all

lemma movePhase_frame [simp]:
  "players (movePhase s) = players s"
  "pellets (movePhase s) = pellets s"
  by (simp_all add: movePhase_def movePhase_aux)

lemma eatPlayer_frame:
  "b \<in> set (players s) \<Longrightarrow> players (fst (eatPlayer a b (s, e))) = players s"
  "pellets (fst (eatPlayer a b (s, e))) = pellets s"
  by (simp_all add: eatPlayer_def Let_def)


lemma eatPlayer_eaten:
  "snd (eatPlayer a b (s, e)) = e \<or> (b \<notin> set e \<and> snd (eatPlayer a b (s, e)) = e @ [b])"
  by (simp add: eatPlayer_def Let_def)

lemma distinct_eatPlayer:
  "distinct (snd st) \<Longrightarrow> distinct (snd (eatPlayer a b st))"
  using eatPlayer_eaten [of a b "fst st" "snd st"] by auto

lemma set_eatPlayer:
  "set (snd (eatPlayer a b st)) \<subseteq> insert b (set (snd st))"
  using eatPlayer_eaten [of a b "fst st" "snd st"] by auto

lemma inner_frame:
  "set bs \<subseteq> set (players (fst st)) \<Longrightarrow>
     players (fst (fold (eatPlayer a) bs st)) = players (fst st)
   \<and> length (pellets (fst (fold (eatPlayer a) bs st))) = length (pellets (fst st))"
proof (induction bs arbitrary: st)
  case Nil
  show ?case by simp
next
  case (Cons b bs)
  obtain s e where st: "st = (s, e)" by (cases st)
  from Cons.prems st have b: "b \<in> set (players s)" by simp
  have p: "players (fst (eatPlayer a b st)) = players (fst st)"
    using eatPlayer_frame(1) [OF b] st by simp
  have q: "pellets (fst (eatPlayer a b st)) = pellets (fst st)"
    using eatPlayer_frame(2) st by simp
  from Cons.prems p have "set bs \<subseteq> set (players (fst (eatPlayer a b st)))" by simp
  from Cons.IH [OF this] p q show ?case by simp
qed

lemma inner_distinct:
  "distinct (snd st) \<Longrightarrow> distinct (snd (fold (eatPlayer a) bs st))"
  by (induction bs arbitrary: st) (simp_all add: distinct_eatPlayer)

lemma inner_set:
  "set (snd (fold (eatPlayer a) bs st)) \<subseteq> set bs \<union> set (snd st)"
proof (induction bs arbitrary: st)
  case Nil
  show ?case by simp
next
  case (Cons b bs)
  from Cons.IH [of "eatPlayer a b st"] set_eatPlayer [of a b st] show ?case by auto
qed

lemma outer_frame:
  "players (fst (fold eatLoop as st)) = players (fst st)
   \<and> length (pellets (fst (fold eatLoop as st)))
       = length (pellets (fst st))"
proof (induction as arbitrary: st)
  case Nil
  show ?case by simp
next
  case (Cons a as)
  from Cons.IH [of "eatLoop a st"]
    inner_frame [of "players (fst st)" st a]
  show ?case by (simp add: eatLoop_def)
qed

lemma outer_distinct:
  "distinct (snd st) \<Longrightarrow>
   distinct (snd (fold eatLoop as st))"
  by (induction as arbitrary: st) (simp_all add: inner_distinct eatLoop_def)

lemma outer_set:
  "set (snd (fold eatLoop as st))
     \<subseteq> set (players (fst st)) \<union> set (snd st)"
proof (induction as arbitrary: st)
  case Nil
  show ?case by simp
next
  case (Cons a as)
  let ?st = "eatLoop a st"
  have "players (fst ?st) = players (fst st)"
    using inner_frame [of "players (fst st)" st a] by (simp add: eatLoop_def)
  with Cons.IH [of ?st] inner_set [of a "players (fst st)" st]
  show ?case by (auto simp: eatLoop_def)
qed

lemma playerPhase_frame [simp]:
  "players (fst (playerPhase s)) = players s"
  "length (pellets (fst (playerPhase s))) = length (pellets s)"
  using outer_frame [of "players s" "(s, [])"] by (simp_all add: playerPhase_def)

lemma distinct_playerPhase: "distinct (snd (playerPhase s))"
  using outer_distinct [of "(s, [])" "players s"] by (simp add: playerPhase_def)

lemma set_playerPhase: "set (snd (playerPhase s)) \<subseteq> set (players s)"
  using outer_set [of "players s" "(s, [])"] by (simp add: playerPhase_def)

lemma removeEaten_frame [simp]:
  "players (removeEaten e s) = filter (\<lambda>k. k \<notin> set e) (players s)"
  "pellets (removeEaten e s) = pellets s"
  "heap (removeEaten e s) = heap s"
proof -
  have "players (removeEaten e s) = filter (\<lambda>k. k \<notin> set e) (players s)
        \<and> pellets (removeEaten e s) = pellets s \<and> heap (removeEaten e s) = heap s"
    unfolding removeEaten_def
  proof (induction e arbitrary: s)
    case Nil
    show ?case by simp
  next
    case (Cons k e)
    have "filter (\<lambda>j. j \<notin> set e) (removeAll k (players s))
          = filter (\<lambda>j. j \<notin> set (k # e)) (players s)"
      by (auto simp: removeAll_filter_not_eq intro!: filter_cong)
    with Cons.IH [of "s\<lparr>players := Map_delete k (players s)\<rparr>"]
    show ?case by (simp add: Map_delete_def)
  qed
  then show "players (removeEaten e s) = filter (\<lambda>k. k \<notin> set e) (players s)"
    "pellets (removeEaten e s) = pellets s" "heap (removeEaten e s) = heap s"
    by simp_all
qed

lemma players_tick:
  "players (tick s) = filter (\<lambda>k. k \<notin> set (snd (collided s))) (players s)"
  by (simp add: tick_def broadcast_def collided_def split: prod.splits)
     (metis fst_conv snd_conv playerPhase_frame(1) pelletPhase_frame(1) movePhase_frame(1))

lemma length_pellets_tick:
  "length (pellets (tick s)) = length (pellets s)"
  by (simp add: tick_def broadcast_def collided_def split: prod.splits)
     (metis fst_conv playerPhase_frame(2) pelletPhase_frame(2) movePhase_frame(2))


section \<open>The pellet pool\<close>

lemma relocated_eatPellet:
  assumes "relocated orig s" "i < length orig"
  shows "relocated orig (eatPellet k i s)"
proof -
  from assms have u: "0 \<le> rnd s 0" "rnd s 0 < 1" "0 \<le> rnd s (Suc 0)" "rnd s (Suc 0) < 1"
    by (simp_all add: relocated_def unit_rnd_def)
  have new: "Fin 0 \<le> Fin (rnd s 0) * MAP_WIDTH" "Fin (rnd s 0) * MAP_WIDTH < MAP_WIDTH"
    "Fin 0 \<le> Fin (rnd s (Suc 0)) * MAP_HEIGHT" "Fin (rnd s (Suc 0)) * MAP_HEIGHT < MAP_HEIGHT"
    using u by (simp_all add: constants_defs)
  show ?thesis
    using assms new
    by (auto simp: relocated_def unit_rnd_def eatPellet_def Math_random_def Let_def
          nth_list_update in_map_def)
qed

lemma relocated_fold_eatPellet:
  "relocated orig s \<Longrightarrow> set is \<subseteq> {..<length orig} \<Longrightarrow> relocated orig (fold (eatPellet k) is s)"
  by (induction "is" arbitrary: s) (simp_all add: relocated_eatPellet)

lemma relocated_pelletPhase_aux:
  "relocated orig s \<Longrightarrow>
   relocated orig (fold pelletLoop ks s)"
proof (induction ks arbitrary: s)
  case Nil
  then show ?case by simp
next
  case (Cons k ks)
  from Cons.prems have "length (pellets s) = length orig" by (simp add: relocated_def)
  then have "set [0..<length (pellets s)] \<subseteq> {..<length orig}" by auto
  then have "relocated orig (fold (eatPellet k) [0..<length (pellets s)] s)"
    by (rule relocated_fold_eatPellet [OF Cons.prems])
  then have "relocated orig (pelletLoop k s)" by (simp add: pelletLoop_def)
  from Cons.IH [OF this] show ?case by simp
qed

lemma relocated_handlePlayerDeath:
  "relocated orig s \<Longrightarrow> relocated orig (handlePlayerDeath k s)"
  by (simp add: relocated_def unit_rnd_def handlePlayerDeath_def getRandomSpawn_def Math_random_def Let_def)

lemma relocated_eatPlayer:
  "relocated orig (fst st) \<Longrightarrow> relocated orig (fst (eatPlayer a b st))"
proof -
  assume r: "relocated orig (fst st)"
  obtain s e where st: "st = (s, e)" by (cases st)
  have "relocated orig (s\<lparr>heap := h\<rparr>)" for h
    using r st by (simp add: relocated_def unit_rnd_def)
  then show ?thesis
    using r st by (simp add: eatPlayer_def Let_def relocated_handlePlayerDeath)
qed

lemma relocated_inner:
  "relocated orig (fst st) \<Longrightarrow> relocated orig (fst (fold (eatPlayer a) bs st))"
  by (induction bs arbitrary: st) (simp_all add: relocated_eatPlayer)

lemma relocated_outer:
  "relocated orig (fst st) \<Longrightarrow>
   relocated orig (fst (fold eatLoop as st))"
  by (induction as arbitrary: st) (simp_all add: relocated_inner eatLoop_def)

lemma rnd_movePhase_aux:
  "rnd (fold moveStep ks s) = rnd s"
  by (induction ks arbitrary: s) simp_all

lemma relocated_movePhase: "relocated orig s \<Longrightarrow> relocated orig (movePhase s)"
  by (simp add: relocated_def unit_rnd_def movePhase_def rnd_movePhase_aux movePhase_aux)

lemma rnd_removeEaten: "rnd (removeEaten e s) = rnd s"
  unfolding removeEaten_def by (induction e arbitrary: s) simp_all

lemma relocated_tick: "relocated orig s \<Longrightarrow> relocated orig (tick s)"
proof -
  assume r: "relocated orig s"
  have 1: "relocated orig (pelletPhase (movePhase s))"
    using relocated_pelletPhase_aux [OF relocated_movePhase [OF r]] by (simp add: pelletPhase_def)
  have 2: "relocated orig (fst (collided s))"
    using relocated_outer [of orig "(pelletPhase (movePhase s), [])"] 1
    by (simp add: collided_def playerPhase_def)
  then show ?thesis
    by (cases "collided s")
       (simp add: tick_def broadcast_def relocated_def unit_rnd_def rnd_removeEaten)
qed

lemma tick_relocates:
  assumes "\<forall>n. 0 \<le> rnd s n \<and> rnd s n < 1" "i < length (pellets s)"
  shows "pellets (tick s) ! i = pellets s ! i \<or> in_map (pellets (tick s) ! i)"
proof -
  from assms(1) have "relocated (pellets s) s" by (simp add: relocated_def unit_rnd_def)
  from relocated_tick [OF this] assms(2) show ?thesis by (simp add: relocated_def)
qed


section \<open>Eaten players\<close>

lemma sqrt_9: "sqrt 9 = 3"
  using real_sqrt_abs [of 3] by simp

lemma sqrt_425: "10 < sqrt 425"
  by (rule real_less_rsqrt) simp

lemma movePlayer_pA: "movePlayer pA = pA"
  by (simp add: movePlayer_def pA_def constants_defs Let_def)

lemma movePlayer_pB: "movePlayer pB = pB"
  by (simp add: movePlayer_def pB_def constants_defs Let_def)

lemma movePhase_duel: "movePhase duel = duel"
  by (simp add: movePhase_def moveStep_def duel_def movePlayer_pA movePlayer_pB fun_eq_iff)

lemma pelletPhase_duel: "pelletPhase duel = duel"
  by (simp add: pelletPhase_def pelletLoop_def duel_def)

lemma eaten_duel: "snd (playerPhase duel) = [2]"
  by (simp add: playerPhase_def eatLoop_def duel_def eatPlayer_def pA_def pB_def Constants_dist_def sqrt_9
      consumePlayer_def handlePlayerDeath_def getRandomSpawn_def Math_random_def Map_set_def
      constants_defs sqrt_425 Let_def)

lemma respawned_duel:
  "heap (fst (playerPhase duel)) 2 =
     pB\<lparr>x := Fin 1000, y := Fin 1000, radius := Fin 10, score := Fin 100\<rparr>"
  by (simp add: playerPhase_def eatLoop_def duel_def eatPlayer_def pA_def pB_def Constants_dist_def sqrt_9
      consumePlayer_def handlePlayerDeath_def getRandomSpawn_def Math_random_def Map_set_def
      constants_defs sqrt_425 Let_def)

lemma heap_tick: "heap (tick s) = heap (fst (collided s))"
  by (cases "collided s") (simp add: tick_def broadcast_def)

lemma eaten_removed: "k \<in> set (snd (collided s)) \<Longrightarrow> k \<notin> set (players (tick s))"
  by (simp add: players_tick)

text \<open>
  C1. An entity that is eaten stays in the world: it is respawned under the same id, name
  and color with baseline radius and score, and only a closed connection removes an
  entity. The game loop does not keep this: in the scenario \<open>duel\<close> B is eaten by A,
  \<open>handlePlayerDeath\<close> resets the object of B to the baseline at a new position, and
  the loop over \<open>eatenPlayers\<close> then deletes B from \<open>players\<close>, with no connection
  closed.
\<close>

theorem C1_eaten_player_deleted:
  "players duel = [1, 2] \<and> snd (collided duel) = [2] \<and>
   heap (tick duel) 2 = pB\<lparr>x := Fin 1000, y := Fin 1000, radius := Fin 10, score := Fin 100\<rparr> \<and>
   players (tick duel) = [1]"
proof -
  have c: "collided duel = playerPhase duel"
    by (simp add: collided_def movePhase_duel pelletPhase_duel)
  have "players duel = [1, 2]" by (simp add: duel_def)
  moreover have "snd (collided duel) = [2]" by (simp add: c eaten_duel)
  moreover have "heap (tick duel) 2
      = pB\<lparr>x := Fin 1000, y := Fin 1000, radius := Fin 10, score := Fin 100\<rparr>"
    by (simp add: heap_tick c respawned_duel)
  moreover have "players (tick duel) = [1]"
    by (simp add: players_tick c eaten_duel) (simp add: duel_def)
  ultimately show ?thesis by simp
qed

lemma length_initPelletsLoop:
  "length (pellets (initPelletsLoop n s)) = length (pellets s) + n"
  by (induction n arbitrary: s) (simp_all add: Math_random_def)

lemma length_pellets_boot: "length (pellets (boot r db)) = PELLET_COUNT"
  by (simp add: boot_def initPellets_def length_initPelletsLoop)

lemma pellets_join: "join c m s = Inr s' \<Longrightarrow> pellets s' = pellets s"
  by (auto simp: join_def getRandomSpawn_def getRandomColor_def Math_random_def Let_def
      split: sum.splits)

lemma pellets_input: "pellets (input k m s) = pellets s"
  by (simp add: input_def Let_def split: jsval.splits)

lemma pellets_onMessage: "onMessage c d s = Inr s' \<Longrightarrow> pellets s' = pellets s"
  by (auto simp: onMessage_def pellets_join pellets_input split: data.splits option.splits if_splits)

lemma pellets_onClose: "pellets (onClose c s) = pellets s"
  by (simp add: onClose_def split: option.splits)

lemma length_pellets_step: "step e s = Inr s' \<Longrightarrow> length (pellets s') = length (pellets s)"
  by (cases e) (auto simp: pellets_onMessage pellets_onClose length_pellets_tick)

lemma length_pellets_run: "run es s = Inr s' \<Longrightarrow> length (pellets s') = length (pellets s)"
proof (induction es arbitrary: s)
  case Nil
  then show ?case by simp
next
  case (Cons e es)
  then show ?case by (auto split: sum.splits dest: length_pellets_step)
qed

section \<open>Movement\<close>

lemma movePlayer_movable:
  assumes "movable p"
  shows "within_map (movePlayer p) \<and> movable (movePlayer p)"
proof -
  from assms obtain r dx dy where
    r: "radius p = Fin r" "0 < r" "r \<le> 1000" and d: "dirX p = Fin dx" "dirY p = Fin dy"
    by (cases "radius p"; cases "dirX p"; cases "dirY p") (auto simp: movable_def)
  from assms have n: "x p \<noteq> NaN" "y p \<noteq> NaN" by (simp_all add: movable_def)
  have "\<exists>v. Math_max MIN_SPEED (INITIAL_SPEED / radius p) = Fin v"
    using r by (auto simp: constants_defs)
  then obtain v where v: "Math_max MIN_SPEED (INITIAL_SPEED / radius p) = Fin v" ..
  show ?thesis
    using r d n v
    by (cases "x p"; cases "y p")
       (auto simp: movePlayer_def within_map_def movable_def constants_defs Let_def)
qed

lemma moveFold_within:
  "movable (heap s k) \<Longrightarrow>
   movable (heap (fold moveStep ks s) k) \<and>
   (k \<in> set ks \<or> within_map (heap s k) \<longrightarrow> within_map (heap (fold moveStep ks s) k))"
proof (induction ks arbitrary: s)
  case Nil
  then show ?case by simp
next
  case (Cons j ks)
  show ?case
  proof (cases "j = k")
    case True
    with Cons.prems have "movable (heap (moveStep j s) k)" "within_map (heap (moveStep j s) k)"
      using movePlayer_movable [of "heap s k"] by simp_all
    with Cons.IH [of "moveStep j s"] show ?thesis by simp
  next
    case False
    with Cons.prems have "movable (heap (moveStep j s) k)" "heap (moveStep j s) k = heap s k"
      by simp_all
    with Cons.IH [of "moveStep j s"] False show ?thesis by auto
  qed
qed

text \<open>
  C5, as it holds of the code. After the movement pass, every player of the Map whose
  position was not \<open>NaN\<close>, whose heading was finite and whose radius \<open>r\<close> was finite
  with \<open>0 < r \<le> 1000\<close> satisfies \<open>r \<le> x \<le> MAP_WIDTH - r\<close> and
  \<open>r \<le> y \<le> MAP_HEIGHT - r\<close>. For a larger radius the two clamps cannot both hold, and
  the upper one wins (\<open>C5_counterexample\<close>).
\<close>

theorem C5_bounds_after_movement:
  assumes "k \<in> set (players s)"
    and "x (heap s k) \<noteq> NaN" and "y (heap s k) \<noteq> NaN"
    and "isFinite (dirX (heap s k))" and "isFinite (dirY (heap s k))"
    and "Fin 0 < radius (heap s k)" and "radius (heap s k) \<le> Fin 1000"
  shows "within_map (heap (movePhase s) k)"
  using assms moveFold_within [of s k "players s"] by (simp add: movePhase_def movable_def)

theorem C5_bounds_after_movement_witness:
  "1 \<in> set (players duel) \<and> x (heap duel 1) \<noteq> NaN \<and> y (heap duel 1) \<noteq> NaN \<and>
   isFinite (dirX (heap duel 1)) \<and> isFinite (dirY (heap duel 1)) \<and>
   Fin 0 < radius (heap duel 1) \<and> radius (heap duel 1) \<le> Fin 1000 \<and>
   within_map (heap (movePhase duel) 1)"
  using C5_bounds_after_movement [of 1 duel] by (simp add: duel_def pA_def)

theorem C5_counterexample:
  "1 \<in> set (players crowded) \<and> heap crowded 1 = giant \<and>
   heap (movePhase crowded) 1 = giant\<lparr>x := Fin 990, y := Fin 990\<rparr> \<and>
   \<not> within_map (heap (movePhase crowded) 1)"
  by (simp add: crowded_def duel_def movePhase_def moveStep_def movePlayer_def giant_def within_map_def
      constants_defs Let_def)

section \<open>Growth\<close>

lemma is_area_square: "is_area (a * a)"
  by (cases a) simp_all

lemma is_area_add: "is_area a \<Longrightarrow> is_area b \<Longrightarrow> is_area (a + b)"
  by (cases a; cases b) simp_all

lemma sqrt_square_area: "is_area a \<Longrightarrow> Math_sqrt a * Math_sqrt a = a"
  by (cases a) simp_all

lemma is_area_area_of: "is_area (area_of m)"
  by (cases m) (simp_all add: is_area_square)

lemma is_area_sum: "is_area (sum_list (map area_of ms))"
  by (induction ms) (simp_all add: zero_num_def is_area_add is_area_area_of)

lemma consume_eq:
  "consume m p = p\<lparr>radius := Math_sqrt (radius p * radius p + area_of m),
                    score := radius p * radius p + area_of m\<rparr>"
  by (cases m) (simp_all add: consumePellet_def consumePlayer_def Let_def)

lemma consume_area: "radius (consume m p) * radius (consume m p) = score (consume m p)"
  by (simp add: consume_eq sqrt_square_area is_area_add is_area_square is_area_area_of)

lemma fold_consume:
  "score p = radius p * radius p \<Longrightarrow>
   fold consume ms p =
     p\<lparr>radius := (if ms = [] then radius p
                   else Math_sqrt (radius p * radius p + sum_list (map area_of ms))),
       score := radius p * radius p + sum_list (map area_of ms)\<rparr>"
proof (induction ms arbitrary: p)
  case Nil
  then show ?case by (simp add: zero_num_def [symmetric])
next
  case (Cons m ms)
  have "score (consume m p) = radius (consume m p) * radius (consume m p)"
    by (simp add: consume_area)
  from Cons.IH [OF this] show ?case
    by (simp add: consume_area) (simp add: consume_eq add.assoc)
qed

section \<open>Messages\<close>

lemma onMessage_input:
  "conn_player s c = Some k \<Longrightarrow> m ''type'' = Str ''input'' \<Longrightarrow>
   onMessage c (Parsed m) s = Inr (input k m s)"
  by (simp add: onMessage_def)

lemma input_not_number:
  "(\<forall>v. m ''dx'' \<noteq> Num v) \<or> (\<forall>v. m ''dy'' \<noteq> Num v) \<Longrightarrow> input k m s = s"
  by (auto simp: input_def split: jsval.splits)

lemma input_numbers:
  "m ''dx'' = Num u \<Longrightarrow> m ''dy'' = Num v \<Longrightarrow>
   input k m s =
     (if Fin 0 < Math_hypot u v
      then with_heading k (u / Math_hypot u v) (v / Math_hypot u v) s
      else with_heading k (Fin 0) (Fin 0) s)"
  by (simp add: input_def with_heading_def Let_def)

lemma sqrt_sum_squares_pos: "a \<noteq> 0 \<or> b \<noteq> 0 \<Longrightarrow> 0 < sqrt (a * a + b * b)"
  for a b :: real
  by (auto simp: sum_squares_gt_zero_iff)

lemma unit_length:
  fixes a b :: real
  assumes "a \<noteq> 0 \<or> b \<noteq> 0"
  shows "(a / sqrt (a * a + b * b))\<^sup>2 + (b / sqrt (a * a + b * b))\<^sup>2 = 1"
proof -
  have p: "0 < a * a + b * b" using assms by (auto simp: sum_squares_gt_zero_iff)
  have "a * a / (a * a + b * b) + b * b / (a * a + b * b) = 1"
    using assms by (simp add: add_divide_distrib [symmetric])
  moreover have "(sqrt (a * a + b * b))\<^sup>2 = a * a + b * b"
    using p by simp
  ultimately show ?thesis
    by (simp only: power_divide power2_eq_square [of a] power2_eq_square [of b])
qed

text \<open>
  What the input branch stores, for a connection that has joined. If \<open>dx\<close> or \<open>dy\<close> is
  not a number the message is dropped and the state is unchanged; if both are finite and
  not both zero the stored heading is the vector divided by its length, of unit length,
  and nothing else changes; if both are zero the stored heading is the zero vector. A
  number that is not finite passes the \<open>typeof\<close> test: if a component is infinite the
  stored heading has \<open>NaN\<close> for each component that is not finite and 0 for a finite
  one, and if a component is \<open>NaN\<close> and none is infinite the stored heading is the
  zero vector.
\<close>

lemma input_heading:
  assumes "conn_player s c = Some k" and "m ''type'' = Str ''input''"
  shows
    "((\<forall>v. m ''dx'' \<noteq> Num v) \<or> (\<forall>v. m ''dy'' \<noteq> Num v) \<longrightarrow>
        onMessage c (Parsed m) s = Inr s) \<and>
     (\<forall>a b. m ''dx'' = Num (Fin a) \<and> m ''dy'' = Num (Fin b) \<and> (a \<noteq> 0 \<or> b \<noteq> 0) \<longrightarrow>
        onMessage c (Parsed m) s =
          Inr (with_heading k (Fin (a / sqrt (a * a + b * b))) (Fin (b / sqrt (a * a + b * b))) s) \<and>
        (a / sqrt (a * a + b * b))\<^sup>2 + (b / sqrt (a * a + b * b))\<^sup>2 = 1) \<and>
     (m ''dx'' = Num (Fin 0) \<and> m ''dy'' = Num (Fin 0) \<longrightarrow>
        onMessage c (Parsed m) s = Inr (with_heading k (Fin 0) (Fin 0) s)) \<and>
     (\<forall>u v. m ''dx'' = Num u \<and> m ''dy'' = Num v \<and> (u \<in> {PInf, NInf} \<or> v \<in> {PInf, NInf}) \<longrightarrow>
        onMessage c (Parsed m) s =
          Inr (with_heading k (if isFinite u then Fin 0 else NaN)
                              (if isFinite v then Fin 0 else NaN) s)) \<and>
     (\<forall>u v. m ''dx'' = Num u \<and> m ''dy'' = Num v \<and> u \<notin> {PInf, NInf} \<and> v \<notin> {PInf, NInf} \<and>
            (u = NaN \<or> v = NaN) \<longrightarrow>
        onMessage c (Parsed m) s = Inr (with_heading k (Fin 0) (Fin 0) s))"
proof -
  note om = onMessage_input [of s c k m, OF assms]
  have 1: "(\<forall>v. m ''dx'' \<noteq> Num v) \<or> (\<forall>v. m ''dy'' \<noteq> Num v) \<longrightarrow>
        onMessage c (Parsed m) s = Inr s"
    using input_not_number [of m k s] by (auto simp: om)
  have 2: "onMessage c (Parsed m) s =
          Inr (with_heading k (Fin (a / sqrt (a * a + b * b))) (Fin (b / sqrt (a * a + b * b))) s) \<and>
        (a / sqrt (a * a + b * b))\<^sup>2 + (b / sqrt (a * a + b * b))\<^sup>2 = 1"
    if "m ''dx'' = Num (Fin a) \<and> m ''dy'' = Num (Fin b) \<and> (a \<noteq> 0 \<or> b \<noteq> 0)" for a b
  proof -
    from that have p: "0 < sqrt (a * a + b * b)" using sqrt_sum_squares_pos [of a b] by blast
    from that have u: "(a / sqrt (a * a + b * b))\<^sup>2 + (b / sqrt (a * a + b * b))\<^sup>2 = 1"
      using unit_length [of a b] by blast
    from that have nz: "\<not> (a = 0 \<and> b = 0)" by blast
    from p nz have h: "Fin 0 < Math_hypot (Fin a) (Fin b)"
      "Fin a / Math_hypot (Fin a) (Fin b) = Fin (a / sqrt (a * a + b * b))"
      "Fin b / Math_hypot (Fin a) (Fin b) = Fin (b / sqrt (a * a + b * b))"
      by simp_all
    from that have "input k m s = with_heading k (Fin (a / sqrt (a * a + b * b)))
                                    (Fin (b / sqrt (a * a + b * b))) s"
      using input_numbers [of m "Fin a" "Fin b" k s] by (simp only: h if_True)
    with u show ?thesis by (simp add: om)
  qed
  have 3: "m ''dx'' = Num (Fin 0) \<and> m ''dy'' = Num (Fin 0) \<longrightarrow>
        onMessage c (Parsed m) s = Inr (with_heading k (Fin 0) (Fin 0) s)"
    by (simp add: om input_numbers)
  have 4: "onMessage c (Parsed m) s =
          Inr (with_heading k (if isFinite u then Fin 0 else NaN)
                              (if isFinite v then Fin 0 else NaN) s)"
    if "m ''dx'' = Num u \<and> m ''dy'' = Num v \<and> (u \<in> {PInf, NInf} \<or> v \<in> {PInf, NInf})" for u v
    using that by (cases u; cases v) (simp_all add: om input_numbers)
  have 5: "onMessage c (Parsed m) s = Inr (with_heading k (Fin 0) (Fin 0) s)"
    if "m ''dx'' = Num u \<and> m ''dy'' = Num v \<and> u \<notin> {PInf, NInf} \<and> v \<notin> {PInf, NInf} \<and>
            (u = NaN \<or> v = NaN)" for u v
    using that by (cases u; cases v) (simp_all add: om input_numbers)
  from 1 2 3 4 5 show ?thesis by blast
qed

lemma sqrt_25: "sqrt 25 = 5"
  using real_sqrt_abs [of 5] by simp

lemma input_heading_examples:
  "conn_player duel 0 = Some 1 \<and>
   onMessage 0 (Parsed (input_msg (Str ''left'') (Num (Fin 1)))) duel = Inr duel \<and>
   onMessage 0 (Parsed (input_msg (Num (Fin 3)) (Num (Fin 4)))) duel
     = Inr (with_heading 1 (Fin (3 / 5)) (Fin (4 / 5)) duel) \<and>
   onMessage 0 (Parsed (input_msg (Num (Fin 0)) (Num (Fin 0)))) duel
     = Inr (with_heading 1 (Fin 0) (Fin 0) duel) \<and>
   onMessage 0 (Parsed (input_msg (Num NInf) (Num (Fin 1)))) duel
     = Inr (with_heading 1 NaN (Fin 0) duel) \<and>
   onMessage 0 (Parsed (input_msg (Num NaN) (Num (Fin 1)))) duel
     = Inr (with_heading 1 (Fin 0) (Fin 0) duel)"
proof -
  have c: "conn_player duel 0 = Some 1" by (simp add: duel_def)
  have t: "input_msg u v ''type'' = Str ''input''" for u v
    by (simp add: input_msg_def)
  have dx: "input_msg u v ''dx'' = u" and dy: "input_msg u v ''dy'' = v" for u v
    by (simp_all add: input_msg_def)
  have 1: "onMessage 0 (Parsed (input_msg (Str ''left'') (Num (Fin 1)))) duel = Inr duel"
    using input_heading [of duel 0 1 "input_msg (Str ''left'') (Num (Fin 1))", OF c t]
    by (simp add: dx dy)
  have 2: "onMessage 0 (Parsed (input_msg (Num (Fin 3)) (Num (Fin 4)))) duel
     = Inr (with_heading 1 (Fin (3 / 5)) (Fin (4 / 5)) duel)"
    using input_heading [of duel 0 1 "input_msg (Num (Fin 3)) (Num (Fin 4))", OF c t]
    by (simp add: dx dy sqrt_25)
  have 3: "onMessage 0 (Parsed (input_msg (Num (Fin 0)) (Num (Fin 0)))) duel
     = Inr (with_heading 1 (Fin 0) (Fin 0) duel)"
    using input_heading [of duel 0 1 "input_msg (Num (Fin 0)) (Num (Fin 0))", OF c t]
    by (simp add: dx dy)
  have 4: "onMessage 0 (Parsed (input_msg (Num NInf) (Num (Fin 1)))) duel
     = Inr (with_heading 1 NaN (Fin 0) duel)"
    using input_heading [of duel 0 1 "input_msg (Num NInf) (Num (Fin 1))", OF c t]
    by (simp add: dx dy)
  have 5: "onMessage 0 (Parsed (input_msg (Num NaN) (Num (Fin 1)))) duel
     = Inr (with_heading 1 (Fin 0) (Fin 0) duel)"
    using input_heading [of duel 0 1 "input_msg (Num NaN) (Num (Fin 1))", OF c t]
    by (simp add: dx dy)
  from c 1 2 3 4 5 show ?thesis by blast
qed

text \<open>
  C2. An input whose \<open>dx\<close> or \<open>dy\<close> is not finite is dropped and leaves the heading and
  all other state unchanged; a finite vector that is not zero is stored normalized, the
  zero vector as the zero vector. The handler does the last two (\<open>input_heading\<close>), but
  it tests only \<open>typeof\<close>, which an infinite number passes: the message
  \<open>{type: 'input', dx: 1e999, dy: 0}\<close> parses to \<open>dx = Infinity\<close>, and the handler stores
  the heading \<open>(NaN, 0)\<close> in a player whose heading was \<open>(0, 0)\<close>.
\<close>

theorem C2_infinite_input_stored:
  "conn_player duel 0 = Some 1 \<and> dirX (heap duel 1) = Fin 0 \<and>
   onMessage 0 (Parsed (input_msg (Num PInf) (Num (Fin 0)))) duel
     = Inr (with_heading 1 NaN (Fin 0) duel) \<and>
   dirX (heap (with_heading 1 NaN (Fin 0) duel) 1) = NaN \<and>
   onMessage 0 (Parsed (input_msg (Num PInf) (Num (Fin 0)))) duel \<noteq> Inr duel"
proof -
  have c: "conn_player duel 0 = Some 1" by (simp add: duel_def)
  have t: "input_msg (Num PInf) (Num (Fin 0)) ''type'' = Str ''input''"
    by (simp add: input_msg_def)
  have d: "dirX (heap duel 1) = Fin 0" by (simp add: duel_def pA_def)
  have e: "onMessage 0 (Parsed (input_msg (Num PInf) (Num (Fin 0)))) duel
     = Inr (with_heading 1 NaN (Fin 0) duel)"
    by (simp add: onMessage_def input_def input_msg_def with_heading_def duel_def Let_def)
  have n: "dirX (heap (with_heading 1 NaN (Fin 0) duel) 1) = NaN"
    by (simp add: with_heading_def)
  have "with_heading 1 NaN (Fin 0) duel \<noteq> duel"
    using n d by (metis num.distinct(5))
  with c d e n show ?thesis by simp
qed


lemma onMessage_reads:
  "m ''type'' = m' ''type'' \<Longrightarrow> m ''name'' = m' ''name'' \<Longrightarrow>
   m ''dx'' = m' ''dx'' \<Longrightarrow> m ''dy'' = m' ''dy'' \<Longrightarrow>
   onMessage c (Parsed m) s = onMessage c (Parsed m') s"
  by (simp add: onMessage_def join_def input_def split: option.splits)

lemma onMessage_input_reads:
  "m ''type'' = Str ''input'' \<Longrightarrow> m' ''type'' = Str ''input'' \<Longrightarrow>
   m ''dx'' = m' ''dx'' \<Longrightarrow> m ''dy'' = m' ''dy'' \<Longrightarrow>
   onMessage c (Parsed m) s = onMessage c (Parsed m') s"
  by (simp add: onMessage_def input_def split: option.splits)

lemma agree_step: "agree e e' \<Longrightarrow> step e s = step e' s"
proof (induction e e' rule: agree.induct)
  case (1 c m c' m')
  then have "m ''type'' = m' ''type''" "m ''name'' = m' ''name''"
    "m ''dx'' = m' ''dx''" "m ''dy'' = m' ''dy''" "c = c'"
    by simp_all
  then show ?case using onMessage_reads [of m m' c s] by simp
qed simp_all

lemma agree_run: "list_all2 agree es es' \<Longrightarrow> run es s = run es' s"
proof (induction es es' arbitrary: s rule: list_all2_induct)
  case Nil
  show ?case by simp
next
  case (Cons e es e' es')
  from agree_step [OF Cons.hyps(1)] have "step e s = step e' s" .
  with Cons.IH show ?case by (simp split: sum.splits)
qed

text \<open>
  C8. Two messages that differ only in their \<open>x\<close>, \<open>y\<close>, \<open>radius\<close> and \<open>score\<close>
  properties have the same effect on the state, two runs of the process whose events
  differ only in such properties of their messages end in the same state, and two input
  messages with the same \<open>dx\<close> and \<open>dy\<close> have the same effect whatever else they carry.
\<close>

theorem C8_client_fields_ignored:
  "((\<forall>f. f \<notin> {''x'', ''y'', ''radius'', ''score''} \<longrightarrow> m f = m' f) \<longrightarrow>
      onMessage c (Parsed m) s = onMessage c (Parsed m') s) \<and>
   (list_all2 agree es es' \<longrightarrow> run es s = run es' s) \<and>
   (m ''type'' = Str ''input'' \<and> m' ''type'' = Str ''input'' \<and>
    m ''dx'' = m' ''dx'' \<and> m ''dy'' = m' ''dy'' \<longrightarrow>
      onMessage c (Parsed m) s = onMessage c (Parsed m') s)"
proof -
  have "onMessage c (Parsed m) s = onMessage c (Parsed m') s"
    if a: "\<forall>f. f \<notin> {''x'', ''y'', ''radius'', ''score''} \<longrightarrow> m f = m' f"
  proof -
    from a have "m ''type'' = m' ''type''" "m ''name'' = m' ''name''"
      "m ''dx'' = m' ''dx''" "m ''dy'' = m' ''dy''"
      by simp_all
    then show ?thesis by (rule onMessage_reads)
  qed
  then show ?thesis
    using onMessage_input_reads [of m m' c s] agree_run [of es es' s] by blast
qed

theorem C8_client_fields_ignored_witness:
  "cheat (input_msg (Num (Fin 3)) (Num (Fin 4))) ''radius'' = Num (Fin 500) \<and>
   input_msg (Num (Fin 3)) (Num (Fin 4)) ''radius'' = Undefined \<and>
   onMessage 0 (Parsed (cheat (input_msg (Num (Fin 3)) (Num (Fin 4))))) duel
     = onMessage 0 (Parsed (input_msg (Num (Fin 3)) (Num (Fin 4)))) duel \<and>
   run [Message 0 (Parsed (cheat (input_msg (Num (Fin 3)) (Num (Fin 4))))), Tick] duel
     = run [Message 0 (Parsed (input_msg (Num (Fin 3)) (Num (Fin 4)))), Tick] duel \<and>
   cheat (input_msg (Num (Fin 3)) (Num (Fin 4))) ''type'' = Str ''input'' \<and>
   input_msg (Num (Fin 3)) (Num (Fin 4)) ''type'' = Str ''input'' \<and>
   cheat (input_msg (Num (Fin 3)) (Num (Fin 4))) ''dx'' = input_msg (Num (Fin 3)) (Num (Fin 4)) ''dx'' \<and>
   cheat (input_msg (Num (Fin 3)) (Num (Fin 4))) ''dy'' = input_msg (Num (Fin 3)) (Num (Fin 4)) ''dy''"
proof -
  have a: "\<forall>f. f \<notin> {''x'', ''y'', ''radius'', ''score''} \<longrightarrow>
      cheat (input_msg (Num (Fin 3)) (Num (Fin 4))) f = input_msg (Num (Fin 3)) (Num (Fin 4)) f"
    by (simp add: cheat_def)
  then have l: "list_all2 agree
      [Message 0 (Parsed (cheat (input_msg (Num (Fin 3)) (Num (Fin 4))))), Tick]
      [Message 0 (Parsed (input_msg (Num (Fin 3)) (Num (Fin 4)))), Tick]"
    by simp
  have b: "cheat (input_msg (Num (Fin 3)) (Num (Fin 4))) ''type'' = Str ''input''"
    "input_msg (Num (Fin 3)) (Num (Fin 4)) ''type'' = Str ''input''"
    "cheat (input_msg (Num (Fin 3)) (Num (Fin 4))) ''dx'' = input_msg (Num (Fin 3)) (Num (Fin 4)) ''dx''"
    "cheat (input_msg (Num (Fin 3)) (Num (Fin 4))) ''dy'' = input_msg (Num (Fin 3)) (Num (Fin 4)) ''dy''"
    by (simp_all add: cheat_def input_msg_def)
  have c: "cheat (input_msg (Num (Fin 3)) (Num (Fin 4))) ''radius'' = Num (Fin 500)"
    "input_msg (Num (Fin 3)) (Num (Fin 4)) ''radius'' = Undefined"
    by (simp_all add: cheat_def input_msg_def)
  from a b c l
    C8_client_fields_ignored [of "cheat (input_msg (Num (Fin 3)) (Num (Fin 4)))"
      "input_msg (Num (Fin 3)) (Num (Fin 4))" 0 duel
      "[Message 0 (Parsed (cheat (input_msg (Num (Fin 3)) (Num (Fin 4))))), Tick]"
      "[Message 0 (Parsed (input_msg (Num (Fin 3)) (Num (Fin 4)))), Tick]"]
  show ?thesis by blast
qed

section \<open>Joining\<close>

lemma join_ok:
  assumes "nickname (m ''name'') = Inr nick"
  shows "\<exists>s'. join c m s = Inr s' \<and>
           players s' = Map_set (nextPlayerId s) (players s) \<and>
           pellets s' = pellets s \<and>
           heap s' = (heap s)(nextPlayerId s :=
             \<lparr>name = nick, x = fst (fst (getRandomSpawn s)), y = snd (fst (getRandomSpawn s)),
              radius = INITIAL_RADIUS, dirX = Fin 0, dirY = Fin 0,
              color = Math_floor (Fin (rnd s 2) * Fin 360),
              score = INITIAL_RADIUS * INITIAL_RADIUS\<rparr>) \<and>
           conn_player s' = (conn_player s)(c := Some (nextPlayerId s)) \<and>
           nextPlayerId s' = nextPlayerId s + 1 \<and>
           sent s' = sent s @ [Init c (nextPlayerId s) (map (snapshot_raw s') (players s')) (pellets s)]"
  using assms
  by (simp add: join_def getRandomSpawn_def getRandomColor_def Math_random_def Let_def
      snapshot_raw_def numeral_2_eq_2)

lemma nickname_ok:
  "(\<exists>n. v = Str n) \<or> \<not> truthy v \<Longrightarrow> \<exists>nick. nickname v = Inr nick"
  by (cases v) auto

lemma Map_set_fresh: "k \<notin> set ks \<Longrightarrow> Map_set k ks = ks @ [k]"
  by (simp add: Map_set_def)

lemma in_Map_set: "k \<in> set (Map_set k ks)"
  by (simp add: Map_set_def)

lemma players_initPelletsLoop:
  "players (initPelletsLoop n s) = players s \<and> nextPlayerId (initPelletsLoop n s) = nextPlayerId s"
  by (induction n arbitrary: s) (simp_all add: Math_random_def)

lemma boot_fresh: "fresh (boot r db) \<and> players (boot r db) = []"
  by (simp add: boot_def initPellets_def fresh_def players_initPelletsLoop)

lemma joins_run:
  assumes "m ''type'' = Str ''join''" and "nickname (m ''name'') = Inr nick"
  shows "fresh s \<Longrightarrow>
     \<exists>s'. run (replicate n (Message c (Parsed m))) s = Inr s' \<and>
          length (players s') = length (players s) + n \<and> fresh s'"
proof (induction n arbitrary: s)
  case 0
  then show ?case by simp
next
  case (Suc n)
  from join_ok [where m = m and nick = nick and c = c and s = s, OF assms(2)] obtain s1 where
    j: "join c m s = Inr s1" and p: "players s1 = Map_set (nextPlayerId s) (players s)"
    and i: "nextPlayerId s1 = nextPlayerId s + 1"
    by blast
  from Suc.prems have nf: "nextPlayerId s \<notin> set (players s)" by (auto simp: fresh_def)
  with p have p1: "players s1 = players s @ [nextPlayerId s]" by (simp add: Map_set_fresh)
  with Suc.prems i have "fresh s1" by (auto simp: fresh_def)
  from Suc.IH [OF this] obtain s' where
    "run (replicate n (Message c (Parsed m))) s1 = Inr s'"
    "length (players s') = length (players s1) + n" "fresh s'"
    by blast
  with j p1 assms(1) show ?case by (simp add: onMessage_def)
qed

text \<open>
  C10. A join message whose name is a string or absent always creates a player with the
  next id and the baseline radius, score and heading, and puts it into the Map, however
  many players the Map holds: \<open>MAX_PLAYERS\<close> occurs nowhere in the handler, and any
  number of joins from the start of the process gives that many players.
\<close>

theorem C10_join_unbounded:
  assumes "m ''type'' = Str ''join''"
    and "(\<exists>n. m ''name'' = Str n) \<or> \<not> truthy (m ''name'')"
  shows "(\<exists>s'. onMessage c (Parsed m) s = Inr s' \<and>
              players s' = Map_set (nextPlayerId s) (players s) \<and>
              nextPlayerId s \<in> set (players s') \<and>
              (nextPlayerId s \<notin> set (players s) \<longrightarrow>
                 length (players s') = length (players s) + 1) \<and>
              radius (heap s' (nextPlayerId s)) = INITIAL_RADIUS \<and>
              score (heap s' (nextPlayerId s)) = INITIAL_RADIUS * INITIAL_RADIUS \<and>
              dirX (heap s' (nextPlayerId s)) = Fin 0 \<and>
              dirY (heap s' (nextPlayerId s)) = Fin 0 \<and>
              conn_player s' c = Some (nextPlayerId s) \<and>
              nextPlayerId s' = nextPlayerId s + 1) \<and>
         (\<forall>n r db. \<exists>s'. run (replicate n (Message c (Parsed m))) (boot r db) = Inr s' \<and>
                         length (players s') = n)"
proof -
  from assms(2) obtain nick where nick: "nickname (m ''name'') = Inr nick"
    using nickname_ok [of "m ''name''"] by blast
  from join_ok [where m = m and nick = nick and c = c and s = s, OF nick] obtain s' where
    j: "join c m s = Inr s'" and p: "players s' = Map_set (nextPlayerId s) (players s)"
    and h: "heap s' = (heap s)(nextPlayerId s :=
             \<lparr>name = nick, x = fst (fst (getRandomSpawn s)), y = snd (fst (getRandomSpawn s)),
              radius = INITIAL_RADIUS, dirX = Fin 0, dirY = Fin 0,
              color = Math_floor (Fin (rnd s 2) * Fin 360),
              score = INITIAL_RADIUS * INITIAL_RADIUS\<rparr>)"
    and c: "conn_player s' = (conn_player s)(c := Some (nextPlayerId s))"
    and i: "nextPlayerId s' = nextPlayerId s + 1"
    by blast
  have 1: "\<exists>s'. onMessage c (Parsed m) s = Inr s' \<and>
              players s' = Map_set (nextPlayerId s) (players s) \<and>
              nextPlayerId s \<in> set (players s') \<and>
              (nextPlayerId s \<notin> set (players s) \<longrightarrow>
                 length (players s') = length (players s) + 1) \<and>
              radius (heap s' (nextPlayerId s)) = INITIAL_RADIUS \<and>
              score (heap s' (nextPlayerId s)) = INITIAL_RADIUS * INITIAL_RADIUS \<and>
              dirX (heap s' (nextPlayerId s)) = Fin 0 \<and>
              dirY (heap s' (nextPlayerId s)) = Fin 0 \<and>
              conn_player s' c = Some (nextPlayerId s) \<and>
              nextPlayerId s' = nextPlayerId s + 1"
    using j p h c i assms(1)
    by (intro exI [of _ s']) (simp add: onMessage_def in_Map_set Map_set_fresh)
  have 2: "\<exists>s'. run (replicate n (Message c (Parsed m))) (boot r db) = Inr s' \<and>
                length (players s') = n" for n r db
    using joins_run [where m = m and nick = nick and s = "boot r db" and n = n and c = c,
        OF assms(1) nick] boot_fresh [of r db] by auto
  from 1 2 show ?thesis by blast
qed

theorem C10_join_unbounded_witness:
  "join_msg (Str ''Bob'') ''type'' = Str ''join'' \<and>
   ((\<exists>n. join_msg (Str ''Bob'') ''name'' = Str n) \<or> \<not> truthy (join_msg (Str ''Bob'') ''name'')) \<and>
   (\<exists>s'. onMessage 2 (Parsed (join_msg (Str ''Bob''))) duel = Inr s' \<and> players s' = [1, 2, 3]) \<and>
   (\<exists>s'. run (replicate 51 (Message 2 (Parsed (join_msg (Str ''Bob''))))) (boot (\<lambda>_. 1 / 2) False)
           = Inr s' \<and> length (players s') = 51 \<and> MAX_PLAYERS < length (players s'))"
proof -
  have t: "join_msg (Str ''Bob'') ''type'' = Str ''join''" by (simp add: join_msg_def)
  have n: "(\<exists>n. join_msg (Str ''Bob'') ''name'' = Str n) \<or> \<not> truthy (join_msg (Str ''Bob'') ''name'')"
    by (simp add: join_msg_def)
  note th = C10_join_unbounded [where m = "join_msg (Str ''Bob'')" and c = 2 and s = duel, OF t n]
  have d: "nextPlayerId duel = 3" "players duel = [1, 2]" by (simp_all add: duel_def)
  from th have 1: "\<exists>s'. onMessage 2 (Parsed (join_msg (Str ''Bob''))) duel = Inr s' \<and> players s' = [1, 2, 3]"
    by (auto simp: d Map_set_def)
  from th have "\<exists>s'. run (replicate 51 (Message 2 (Parsed (join_msg (Str ''Bob''))))) (boot (\<lambda>_. 1 / 2) False)
           = Inr s' \<and> length (players s') = 51"
    by blast
  then have 2: "\<exists>s'. run (replicate 51 (Message 2 (Parsed (join_msg (Str ''Bob''))))) (boot (\<lambda>_. 1 / 2) False)
           = Inr s' \<and> length (players s') = 51 \<and> MAX_PLAYERS < length (players s')"
    by (auto simp: MAX_PLAYERS_def)
  from t n 1 2 show ?thesis by blast
qed

lemma floor_rounded: "\<lfloor>164 - 1 / 2 ^ 45 :: real\<rfloor> = 163"
  by (rule floor_unique) simp_all

text \<open>
  C9. Every snapshot the server sends reports the floor of the score. The init message
  does not: it copies \<open>p.score\<close> as it is, while the periodic update of the same state
  applies \<open>Math.floor\<close>. In the world \<open>rounded\<close> a join gets the score
  \<open>164 - 2^-45\<close> for player 1, and the update reports 163.
\<close>

theorem C9_init_score_not_floored:
  "(\<exists>s' snaps. onMessage 1 (Parsed (join_msg (Str ''B''))) rounded = Inr s' \<and>
      sent s' = [Init 1 2 snaps []] \<and>
      map s_id snaps = [1, 2] \<and>
      map s_score snaps = [Fin (164 - 1 / 2 ^ 45), Fin 100]) \<and>
   Math_floor (Fin (164 - 1 / 2 ^ 45)) = Fin 163 \<and>
   (\<exists>snaps. stateUpdate rounded = Update snaps [] \<and> map s_score snaps = [Fin 163])"
proof -
  have "\<exists>s' snaps. onMessage 1 (Parsed (join_msg (Str ''B''))) rounded = Inr s' \<and>
      sent s' = [Init 1 2 snaps []] \<and> map s_id snaps = [1, 2] \<and>
      map s_score snaps = [Fin (164 - 1 / 2 ^ 45), Fin 100]"
    by (simp add: onMessage_def join_msg_def join_def rounded_def getRandomSpawn_def
        getRandomColor_def Math_random_def Map_set_def snapshot_raw_def veteran_def
        constants_defs Let_def)
  moreover have "Math_floor (Fin (164 - 1 / 2 ^ 45)) = Fin 163"
    by (simp add: floor_rounded)
  moreover have "\<exists>snaps. stateUpdate rounded = Update snaps [] \<and> map s_score snaps = [Fin 163]"
    by (simp add: stateUpdate_def snapshot_floor_def rounded_def veteran_def floor_rounded Let_def)
  ultimately show ?thesis by blast
qed

section \<open>Players with a \<open>NaN\<close> coordinate\<close>

lemma not_less_NaN [simp]: "\<not> NaN < r" "\<not> PInf < r"
  by (cases r; simp)+

lemma NaN_minus [simp]: "NaN - v = NaN" "v - NaN = NaN"
  by (cases v; simp)+

lemma hypot_NaN: "Math_hypot NaN v = NaN \<or> Math_hypot NaN v = PInf"
  "Math_hypot v NaN = NaN \<or> Math_hypot v NaN = PInf"
  by (cases v; simp)+

lemma dist_NaN:
  "x1 = NaN \<or> y1 = NaN \<or> x2 = NaN \<or> y2 = NaN \<Longrightarrow> \<not> Constants_dist x1 y1 x2 y2 < r"
  using hypot_NaN [of "y1 - y2"] hypot_NaN [of "x1 - x2"]
  by (auto simp: Constants_dist_def)

lemma NaN_plus [simp]: "NaN + v = NaN"
  by (cases v) simp_all

lemma movePlayer_inert:
  "inert p0 p \<Longrightarrow> inert p0 (movePlayer p)"
  by (auto simp: inert_def movePlayer_def Let_def)

lemma moveStep_inert: "inert p0 (heap s k) \<Longrightarrow> inert p0 (heap (moveStep j s) k)"
  by (auto simp: movePlayer_inert)

lemma movePhase_inert_aux: "inert p0 (heap s k) \<Longrightarrow> inert p0 (heap (fold moveStep ks s) k)"
  by (induction ks arbitrary: s) (simp_all add: moveStep_inert del: moveStep_frame)

section \<open>The player-vs-player pass\<close>

lemma eatPlayer_self: "eatPlayer a a st = st"
  by (cases st) (simp add: eatPlayer_def)

lemma eatPlayer_smaller:
  "radius (heap s a) < radius (heap s b) \<Longrightarrow> eatPlayer a b (s, e) = (s, e)"
  by (simp add: eatPlayer_def Let_def)

lemma eatPlayer_eats:
  "a \<noteq> b \<Longrightarrow> \<not> radius (heap s a) < radius (heap s b) \<Longrightarrow>
   Constants_dist (x (heap s a)) (y (heap s a)) (x (heap s b)) (y (heap s b))
     < radius (heap s a) * Fin (9 / 10) \<Longrightarrow> b \<notin> set e \<Longrightarrow>
   eatPlayer a b (s, e) =
     (handlePlayerDeath b (s\<lparr>heap := (heap s)(a := consumePlayer (heap s a) (heap s b))\<rparr>),
      e @ [b])"
  by (simp add: eatPlayer_def Let_def)

lemma hypot_axis: "Math_hypot (Fin a) (Fin 0) = Fin \<bar>a\<bar>"
  by simp

lemma movePlayer_twin: "movePlayer (twin\<lparr>name := n, x := Fin 100 + Fin a\<rparr>) = twin\<lparr>name := n, x := Fin 100 + Fin a\<rparr>"
  if "0 \<le> a" "a \<le> 100" for a
  using that by (simp add: movePlayer_def twin_def constants_defs Let_def)

lemma movePhase_melee: "movePhase melee = melee"
  using movePlayer_twin [of 12 "''D''"] movePlayer_twin [of 0 "''A''"] movePlayer_twin [of 3 "''B''"]
  by (simp add: movePhase_def moveStep_def melee_def fun_eq_iff twin_def)

lemma pelletPhase_melee: "pelletPhase melee = melee"
  by (simp add: pelletPhase_def pelletLoop_def melee_def)

lemma sqrt_200: "60 < sqrt 200 * 9"
proof -
  have "7 < sqrt 200" by (rule real_less_rsqrt) simp
  then show ?thesis by simp
qed

lemma eaten_melee: "snd (playerPhase melee) = [3, 1, 2]"
  by (simp add: playerPhase_def eatLoop_def melee_def eatPlayer_def twin_def Constants_dist_def
      consumePlayer_def handlePlayerDeath_def getRandomSpawn_def Math_random_def Map_set_def
      constants_defs sqrt_200 hypot_axis Let_def del: Math_hypot.simps)

lemma submitted_melee:
  "submitted (fst (playerPhase melee)) = [(''B'', Fin 100), (''D'', Fin 100), (''A'', Fin 200)]"
  by (simp add: playerPhase_def eatLoop_def melee_def eatPlayer_def twin_def Constants_dist_def
      consumePlayer_def handlePlayerDeath_def getRandomSpawn_def Math_random_def Map_set_def
      constants_defs sqrt_200 hypot_axis Let_def del: Math_hypot.simps)

lemma submitted_tick: "submitted (tick s) = submitted (fst (collided s))"
proof -
  have "submitted (removeEaten e t) = submitted t" for e t
    unfolding removeEaten_def by (induction e arbitrary: t) simp_all
  then show ?thesis by (cases "collided s") (simp add: tick_def broadcast_def)
qed

lemma ledger_eatPellet_fold:
  "submitted (fold (eatPellet k) is s) = submitted s \<and>
   highscoreCollection (fold (eatPellet k) is s) = highscoreCollection s"
  by (induction "is" arbitrary: s) simp_all

lemma ledger_pelletPhase_aux:
  "submitted (fold pelletLoop ks s) = submitted s \<and>
   highscoreCollection (fold pelletLoop ks s) = highscoreCollection s"
  by (induction ks arbitrary: s) (simp_all add: pelletLoop_def ledger_eatPellet_fold)

lemma ledger_movePhase_aux:
  "submitted (fold moveStep ks s) = submitted s \<and>
   highscoreCollection (fold moveStep ks s) = highscoreCollection s"
  by (induction ks arbitrary: s) (simp_all add: moveStep_def)

lemma counted_eatPlayer: "counted n hs st \<Longrightarrow> counted n hs (eatPlayer a b st)"
  by (cases st)
     (simp add: counted_def eatPlayer_def handlePlayerDeath_def getRandomSpawn_def
        Math_random_def Let_def)

lemma counted_inner: "counted n hs st \<Longrightarrow> counted n hs (fold (eatPlayer a) bs st)"
  by (induction bs arbitrary: st) (simp_all add: counted_eatPlayer)

lemma counted_outer: "counted n hs st \<Longrightarrow> counted n hs (fold eatLoop as st)"
  by (induction as arbitrary: st) (simp_all add: counted_inner eatLoop_def)

lemma counted_collided:
  "counted (length (submitted s)) (highscoreCollection s) (collided s)"
proof -
  have "counted (length (submitted s)) (highscoreCollection s) (pelletPhase (movePhase s), [])"
    by (simp add: counted_def pelletPhase_def movePhase_def ledger_pelletPhase_aux
        ledger_movePhase_aux)
  then show ?thesis
    by (simp add: collided_def playerPhase_def counted_outer)
qed

lemma sqrt_double:
  fixes r :: real
  assumes "10 \<le> r"
  shows "10 < sqrt (r * r + r * r)"
proof -
  from assms have "10 * 10 \<le> r * r" by (intro mult_mono) simp_all
  moreover from assms have "0 < r * r" by simp
  ultimately have "10\<^sup>2 < r * r + r * r" by (simp add: power2_eq_square)
  then show ?thesis by (rule real_less_rsqrt)
qed

lemma two_players:
  assumes p: "players s = [a, b]" and ab: "a \<noteq> b"
    and ra: "radius (heap s a) = Fin r" and rb: "radius (heap s b) = Fin r" and r: "10 \<le> r"
    and d: "Constants_dist (x (heap s a)) (y (heap s a)) (x (heap s b)) (y (heap s b))
              < Fin r * Fin (9 / 10)"
  shows "snd (playerPhase s) = [b]"
proof -
  let ?s1 = "s\<lparr>heap := (heap s)(a := consumePlayer (heap s a) (heap s b))\<rparr>"
  let ?s2 = "handlePlayerDeath b ?s1"
  have 1: "eatPlayer a b (s, []) = (?s2, [b])"
    using eatPlayer_eats [of a b s "[]"] ab ra rb d by simp
  have p2: "players ?s2 = [a, b]" using p by (simp add: Map_set_def)
  have "radius (heap ?s2 b) = Fin 10"
    by (simp add: handlePlayerDeath_def getRandomSpawn_def Math_random_def Let_def
        constants_defs)
  moreover have "radius (heap ?s2 a) = Fin (sqrt (r * r + r * r))"
  proof -
    have "0 \<le> r * r + r * r" by simp
    then show ?thesis
      using ab ra rb
      by (simp add: heap_handlePlayerDeath_other consumePlayer_def Let_def del: zero_le_mult_iff)
  qed
  ultimately have "radius (heap ?s2 b) < radius (heap ?s2 a)"
    using sqrt_double [OF r] by simp
  then have 2: "eatPlayer b a (?s2, [b]) = (?s2, [b])"
    by (rule eatPlayer_smaller)
  show ?thesis
    by (simp add: playerPhase_def eatLoop_def p eatPlayer_self 1 p2 2)
qed

text \<open>
  The claim C4 as stated fails with a third player. In the world \<open>melee\<close> A and B have
  the same radius and are at distance 3. A eats B; B respawns next to D and A, eats D,
  has then the radius of A, and eats A: both A and B are eaten in the tick, each by the
  other (the final score 200 of A is its area after eating B).
\<close>

theorem C4_counterexample:
  "players melee = [1, 2, 3] \<and>
   radius (heap melee 2) = Fin 10 \<and> radius (heap melee 3) = Fin 10 \<and>
   Constants_dist (x (heap melee 2)) (y (heap melee 2)) (x (heap melee 3)) (y (heap melee 3)) = Fin 3 \<and>
   snd (collided melee) = [3, 1, 2] \<and>
   submitted (tick melee) = [(''B'', Fin 100), (''D'', Fin 100), (''A'', Fin 200)]"
proof -
  have c: "collided melee = playerPhase melee"
    by (simp add: collided_def movePhase_melee pelletPhase_melee)
  have "Constants_dist (x (heap melee 2)) (y (heap melee 2)) (x (heap melee 3)) (y (heap melee 3)) = Fin 3"
    by (simp add: melee_def twin_def Constants_dist_def hypot_axis del: Math_hypot.simps)
  moreover have "players melee = [1, 2, 3]" "radius (heap melee 2) = Fin 10"
    "radius (heap melee 3) = Fin 10"
    by (simp_all add: melee_def twin_def)
  ultimately show ?thesis
    by (simp add: c eaten_melee submitted_tick submitted_melee)
qed

section \<open>Consumption relocates a pellet\<close>

lemma pellet_moved: "(q::pellet)\<lparr>px := a, py := b\<rparr> = \<lparr>px = a, py = b\<rparr>"
  by (cases q) simp

lemma eatPellet_relocates:
  assumes "i < length (pellets s)"
  shows "eatPellet k i s =
     (if Constants_dist (x (heap s k)) (y (heap s k)) (px (pellets s ! i)) (py (pellets s ! i))
           < radius (heap s k)
      then s\<lparr>heap := (heap s)(k := consumePellet (heap s k)),
             pellets := (pellets s)[i := \<lparr>px = Fin (rnd s 0) * MAP_WIDTH,
                                           py = Fin (rnd s 1) * MAP_HEIGHT\<rparr>],
             rnd := (\<lambda>n. rnd s (n + 2))\<rparr>
      else s)"
  using assms by (simp add: eatPellet_def Math_random_def Let_def pellet_moved)

lemma pellets_eatPlayer_fold:
  "pellets (fst (fold (eatPlayer a) bs st)) = pellets (fst st)"
proof (induction bs arbitrary: st)
  case Nil
  show ?case by simp
next
  case (Cons b bs)
  obtain s e where "st = (s, e)" by (cases st)
  then have "pellets (fst (eatPlayer a b st)) = pellets (fst st)"
    using eatPlayer_frame(2) [of a b s e] by simp
  with Cons.IH [of "eatPlayer a b st"] show ?case by simp
qed

lemma pellets_eatLoop_fold:
  "pellets (fst (fold eatLoop as st)) = pellets (fst st)"
  by (induction as arbitrary: st) (simp_all add: eatLoop_def pellets_eatPlayer_fold)

lemma pellets_tick: "pellets (tick s) = pellets (pelletPhase (movePhase s))"
  by (cases "collided s")
     (use pellets_eatLoop_fold [of "players (pelletPhase (movePhase s))" "(pelletPhase (movePhase s), [])"]
      in \<open>simp add: tick_def broadcast_def collided_def playerPhase_def\<close>)

lemma movePhase_one_pellet: "movePhase one_pellet = one_pellet"
  by (simp add: movePhase_def moveStep_def one_pellet_def duel_def movePlayer_pA movePlayer_pB
      fun_eq_iff)

lemma far_pellet: "\<not> sqrt 1614609 < 5"
proof -
  have "5 < sqrt 1614609" by (rule real_less_rsqrt) simp
  then show ?thesis by simp
qed

lemma pellets_one_pellet:
  "pellets (pelletPhase one_pellet) = [\<lparr>px = Fin 1000, py = Fin 1000\<rparr>]"
  by (simp add: pelletPhase_def pelletLoop_def one_pellet_def duel_def eatPellet_def pA_def pB_def
      Constants_dist_def Math_random_def consumePellet_def constants_defs far_pellet Let_def)


text \<open>
  C6. The number of pellets after a tick is the number before it, and it is the configured
  pool size \<open>PELLET_COUNT\<close> in every state the process reaches from its start, whatever
  messages, closes and ticks occur; a tick leaves every pellet where it was or puts it at
  a position within the map (when \<open>Math.random()\<close> returns values in \<open>[0, 1)\<close>), and
  never removes or adds one. Consumption is a relocation: when the player \<open>k\<close> is closer
  to the pellet \<open>i\<close> than its radius, the step of the loop grows the player and writes at
  the index \<open>i\<close> the pellet whose coordinates are the next two random values times the
  width and the height of the map, and changes no other pellet; otherwise it changes
  nothing. The pellets after the tick are those the pellet pass leaves.
\<close>

theorem C6_pellet_pool_invariant:
  "length (pellets (tick s)) = length (pellets s) \<and>
   (\<forall>es r db s'. run es (boot r db) = Inr s' \<longrightarrow> length (pellets s') = PELLET_COUNT) \<and>
   ((\<forall>n. 0 \<le> rnd s n \<and> rnd s n < 1) \<longrightarrow>
      (\<forall>i < length (pellets s).
         pellets (tick s) ! i = pellets s ! i \<or> in_map (pellets (tick s) ! i))) \<and>
   (i < length (pellets s) \<longrightarrow>
      eatPellet k i s =
        (if Constants_dist (x (heap s k)) (y (heap s k)) (px (pellets s ! i)) (py (pellets s ! i))
              < radius (heap s k)
         then s\<lparr>heap := (heap s)(k := consumePellet (heap s k)),
                pellets := (pellets s)[i := \<lparr>px = Fin (rnd s 0) * MAP_WIDTH,
                                              py = Fin (rnd s 1) * MAP_HEIGHT\<rparr>],
                rnd := (\<lambda>n. rnd s (n + 2))\<rparr>
         else s)) \<and>
   pellets (tick s) = pellets (pelletPhase (movePhase s))"
proof -
  have "length (pellets s') = PELLET_COUNT" if "run es (boot r db) = Inr s'" for es r db s'
    using length_pellets_run [OF that] by (simp add: length_pellets_boot)
  then show ?thesis
    using length_pellets_tick [of s] tick_relocates [of s] eatPellet_relocates [of i s k]
      pellets_tick [of s]
    by blast
qed

theorem C6_pellet_pool_invariant_witness:
  "length (pellets (tick one_pellet)) = 1 \<and>
   (\<exists>s'. run [Tick, Close 0, Tick] (boot (\<lambda>_. 1 / 2) True) = Inr s' \<and> length (pellets s') = 100) \<and>
   (\<forall>n. (0::real) \<le> rnd one_pellet n \<and> rnd one_pellet n < 1) \<and>
   pellets one_pellet = [\<lparr>px = Fin 110, py = Fin 100\<rparr>] \<and>
   Constants_dist (x (heap one_pellet 1)) (y (heap one_pellet 1)) (px (pellets one_pellet ! 0))
       (py (pellets one_pellet ! 0)) < radius (heap one_pellet 1) \<and>
   pellets (eatPellet 1 0 one_pellet) = [\<lparr>px = Fin 1000, py = Fin 1000\<rparr>] \<and>
   score (heap (eatPellet 1 0 one_pellet) 1) = Fin 416 \<and>
   pellets (tick one_pellet) = [\<lparr>px = Fin 1000, py = Fin 1000\<rparr>] \<and>
   in_map (pellets (tick one_pellet) ! 0)"
proof -
  have r: "\<forall>n. (0::real) \<le> rnd one_pellet n \<and> rnd one_pellet n < 1"
    by (simp add: one_pellet_def duel_def)
  have l: "length (pellets one_pellet) = 1" "(0::nat) < length (pellets one_pellet)"
    "pellets one_pellet = [\<lparr>px = Fin 110, py = Fin 100\<rparr>]"
    by (simp_all add: one_pellet_def)
  have d: "Constants_dist (x (heap one_pellet 1)) (y (heap one_pellet 1))
       (px (pellets one_pellet ! 0)) (py (pellets one_pellet ! 0)) < radius (heap one_pellet 1)"
    by (simp add: one_pellet_def duel_def pA_def Constants_dist_def)
  have e: "run [Tick, Close 0, Tick] (boot (\<lambda>_. 1 / 2) True)
           = Inr (tick (onClose 0 (tick (boot (\<lambda>_. 1 / 2) True))))"
    by simp
  note t = C6_pellet_pool_invariant [of one_pellet 0 1]
  from t l have 1: "length (pellets (tick one_pellet)) = 1" by simp
  from t have "run [Tick, Close 0, Tick] (boot (\<lambda>_. 1 / 2) True)
                 = Inr (tick (onClose 0 (tick (boot (\<lambda>_. 1 / 2) True))))
               \<longrightarrow> length (pellets (tick (onClose 0 (tick (boot (\<lambda>_. 1 / 2) True))))) = PELLET_COUNT"
    by blast
  with e have 2: "\<exists>s'. run [Tick, Close 0, Tick] (boot (\<lambda>_. 1 / 2) True) = Inr s'
                       \<and> length (pellets s') = 100"
    by (simp add: PELLET_COUNT_def)
  from t l(2) d have 3: "eatPellet 1 0 one_pellet =
      one_pellet\<lparr>heap := (heap one_pellet)(1 := consumePellet (heap one_pellet 1)),
                 pellets := (pellets one_pellet)[0 := \<lparr>px = Fin (rnd one_pellet 0) * MAP_WIDTH,
                                                      py = Fin (rnd one_pellet 1) * MAP_HEIGHT\<rparr>],
                 rnd := (\<lambda>n. rnd one_pellet (n + 2))\<rparr>"
    by simp
  have 4: "pellets (eatPellet 1 0 one_pellet) = [\<lparr>px = Fin 1000, py = Fin 1000\<rparr>]"
    by (subst 3) (simp add: one_pellet_def duel_def constants_defs)
  have 5: "score (heap (eatPellet 1 0 one_pellet) 1) = Fin 416"
    by (subst 3) (simp add: one_pellet_def duel_def pA_def consumePellet_def constants_defs)
  from t have 6: "pellets (tick one_pellet) = [\<lparr>px = Fin 1000, py = Fin 1000\<rparr>]"
    by (simp add: movePhase_one_pellet pellets_one_pellet)
  then have 7: "in_map (pellets (tick one_pellet) ! 0)"
    by (simp add: in_map_def constants_defs)
  from 1 2 r l(3) d 4 5 6 7 show ?thesis by blast
qed

section \<open>Players with a state that is not finite\<close>

lemma radius_handlePlayerDeath:
  "radius (heap (handlePlayerDeath d s) k) = (if k = d then INITIAL_RADIUS else radius (heap s k))"
  by (simp add: handlePlayerDeath_def getRandomSpawn_def Math_random_def Let_def)

lemma dist_off_map:
  "\<not> isFinite x1 \<or> \<not> isFinite y1 \<or> \<not> isFinite x2 \<or> \<not> isFinite y2 \<Longrightarrow>
   \<not> Constants_dist x1 y1 x2 y2 < r"
proof -
  assume a: "\<not> isFinite x1 \<or> \<not> isFinite y1 \<or> \<not> isFinite x2 \<or> \<not> isFinite y2"
  then have "Constants_dist x1 y1 x2 y2 = NaN \<or> Constants_dist x1 y1 x2 y2 = PInf"
    by (cases x1; cases x2; cases y1; cases y2; simp add: Constants_dist_def)
  then show ?thesis by auto
qed

lemma times_NaN [simp]: "v * NaN = NaN" "NaN * v = NaN"
  by (cases v; simp)+

lemma plus_NaN [simp]: "v + NaN = NaN"
  by (cases v) simp_all

lemma less_NaN [simp]: "\<not> v < NaN" "\<not> v < NInf"
  by (cases v; simp)+

lemma movePlayer_NaN_radius:
  "radius p = NaN \<Longrightarrow> x (movePlayer p) = NaN \<and> y (movePlayer p) = NaN"
  by (simp add: movePlayer_def constants_defs Let_def)

lemma movePlayer_PInf_radius:
  assumes "radius p = PInf"
  shows "\<not> isFinite (x (movePlayer p))"
proof -
  have "\<not> isFinite (x (movePlayer p))"
    using assms
    by (cases "x p + dirX p * Fin 2") (simp_all add: movePlayer_def constants_defs Let_def)
  then show ?thesis .
qed

lemma movePlayer_off: "ghost p \<Longrightarrow> off_map (movePlayer p)"
  using movePlayer_inert [of p p] movePlayer_NaN_radius [of p] movePlayer_PInf_radius [of p]
  by (auto simp: ghost_def off_map_def inert_def)

lemma ghost_inert: "ghost p0 \<Longrightarrow> inert p0 p \<Longrightarrow> ghost p"
  by (auto simp: ghost_def inert_def)

lemma inert_refl: "inert p p"
  by (simp add: inert_def)

lemma movePhase_ghost_aux:
  "ghost p0 \<Longrightarrow> inert p0 (heap s k) \<Longrightarrow> k \<in> set ks \<or> off_map (heap s k) \<Longrightarrow>
   off_map (heap (fold moveStep ks s) k)"
proof (induction ks arbitrary: s)
  case Nil
  then show ?case by simp
next
  case (Cons j ks)
  have i: "inert p0 (heap (moveStep j s) k)"
    using Cons.prems(2) by (rule moveStep_inert)
  have "k \<in> set ks \<or> off_map (heap (moveStep j s) k)"
  proof (cases "j = k")
    case True
    from ghost_inert [OF Cons.prems(1,2)] have "off_map (movePlayer (heap s k))"
      by (rule movePlayer_off)
    with True show ?thesis by simp
  next
    case False
    with Cons.prems(3) show ?thesis by auto
  qed
  from Cons.IH [OF Cons.prems(1) i this] show ?case by simp
qed

lemma alike_moveStep:
  "alike k s t \<Longrightarrow> alike k (moveStep k s) t"
  "j \<noteq> k \<Longrightarrow> alike k s t \<Longrightarrow> alike k (moveStep j s) (moveStep j t)"
  by (simp_all add: alike_def moveStep_def)

lemma alike_move_fold:
  "alike k s t \<Longrightarrow> alike k (fold moveStep ks s) (fold moveStep (removeAll k ks) t)"
proof (induction ks arbitrary: s t)
  case Nil
  then show ?case by simp
next
  case (Cons j ks)
  show ?case
  proof (cases "j = k")
    case True
    from Cons.IH [OF alike_moveStep(1) [OF Cons.prems]] True show ?thesis by simp
  next
    case False
    from Cons.IH [OF alike_moveStep(2) [OF False Cons.prems]] False show ?thesis by simp
  qed
qed

lemma alike_movePhase: "alike k s t \<Longrightarrow> alike k (movePhase s) (movePhase t)"
  using alike_move_fold [of k s t "players s"]
  by (simp add: movePhase_def alike_def Map_delete_def)


lemma eatPellet_ghost:
  assumes "off_map (heap s k)"
  shows "eatPellet k i s = s"
proof -
  from assms have "\<not> Constants_dist (x (heap s k)) (y (heap s k)) (px (pellets s ! i))
      (py (pellets s ! i)) < radius (heap s k)"
    by (intro dist_off_map) (auto simp: off_map_def)
  then show ?thesis by (simp add: eatPellet_def Let_def)
qed

lemma eatPellet_alike:
  assumes "j \<noteq> k" "alike k s t"
  shows "alike k (eatPellet j i s) (eatPellet j i t) \<and> heap (eatPellet j i s) k = heap s k"
  using assms by (simp add: alike_def eatPellet_def Math_random_def Let_def)

lemma pelletLoop_alike:
  assumes "j \<noteq> k" "alike k s t"
  shows "alike k (fold (eatPellet j) is s) (fold (eatPellet j) is t) \<and>
         heap (fold (eatPellet j) is s) k = heap s k"
  using assms(2)
proof (induction "is" arbitrary: s t)
  case Nil
  then show ?case by simp
next
  case (Cons i "is")
  from eatPellet_alike [OF assms(1) Cons.prems, of i] Cons.IH [of "eatPellet j i s" "eatPellet j i t"]
  show ?case by simp
qed

lemma pelletLoop_ghost: "off_map (heap s k) \<Longrightarrow> fold (eatPellet k) is s = s"
  by (induction "is") (simp_all add: eatPellet_ghost)

lemma pelletPhase_alike_aux:
  assumes "off_map g"
  shows "alike k s t \<Longrightarrow> heap s k = g \<Longrightarrow>
         alike k (fold pelletLoop ks s) (fold pelletLoop (removeAll k ks) t) \<and>
         heap (fold pelletLoop ks s) k = g"
proof (induction ks arbitrary: s t)
  case Nil
  then show ?case by simp
next
  case (Cons j ks)
  show ?case
  proof (cases "j = k")
    case True
    from Cons.prems assms have "pelletLoop k s = s"
      by (simp add: pelletLoop_def pelletLoop_ghost)
    with Cons.IH [OF Cons.prems] True show ?thesis by simp
  next
    case False
    from Cons.prems(1) have l: "length (pellets t) = length (pellets s)" by (simp add: alike_def)
    from pelletLoop_alike [OF False Cons.prems(1), of "[0..<length (pellets s)]"] Cons.prems(2)
    have "alike k (pelletLoop j s) (pelletLoop j t)" "heap (pelletLoop j s) k = g"
      by (simp_all add: pelletLoop_def l)
    from Cons.IH [OF this] False show ?thesis by simp
  qed
qed

lemma alike_pelletPhase:
  "off_map (heap s k) \<Longrightarrow> alike k s t \<Longrightarrow>
   alike k (pelletPhase s) (pelletPhase t) \<and> heap (pelletPhase s) k = heap s k"
  using pelletPhase_alike_aux [of "heap s k" k s t "players s"]
  by (simp add: pelletPhase_def alike_def Map_delete_def)


lemma eatPlayer_ghost:
  assumes "off_map (heap s k)" "a = k \<or> b = k"
  shows "eatPlayer a b (s, e) = (s, e)"
proof -
  from assms have "\<not> Constants_dist (x (heap s a)) (y (heap s a)) (x (heap s b)) (y (heap s b))
      < radius (heap s a) * Fin (9 / 10)"
    by (intro dist_off_map) (auto simp: off_map_def)
  then show ?thesis by (simp add: eatPlayer_def Let_def)
qed

lemma Map_set_delete:
  "b \<noteq> k \<Longrightarrow> Map_set b (Map_delete k ps) = Map_delete k (Map_set b ps)"
  by (simp add: Map_set_def Map_delete_def)

lemma alike_handlePlayerDeath:
  assumes "b \<noteq> k" "alike k s t"
  shows "alike k (handlePlayerDeath b s) (handlePlayerDeath b t)"
  using assms
  by (simp add: alike_def Map_set_delete)
     (simp add: handlePlayerDeath_def getRandomSpawn_def Math_random_def Let_def)

lemma eatPlayer_alike:
  assumes "a \<noteq> k" "b \<noteq> k" "alike k s t"
  shows "alike k (fst (eatPlayer a b (s, e))) (fst (eatPlayer a b (t, e))) \<and>
         snd (eatPlayer a b (s, e)) = snd (eatPlayer a b (t, e)) \<and>
         heap (fst (eatPlayer a b (s, e))) k = heap s k"
proof -
  from assms have h: "heap t a = heap s a" "heap t b = heap s b"
    by (simp_all add: alike_def)
  have u: "alike k (s\<lparr>heap := (heap s)(a := c)\<rparr>) (t\<lparr>heap := (heap t)(a := c)\<rparr>)" for c
    using assms(3) by (simp add: alike_def)
  show ?thesis
    using assms(1,2,3) alike_handlePlayerDeath [OF assms(2) u]
    by (simp add: eatPlayer_def h Let_def heap_handlePlayerDeath_other)
qed

lemma eatLoop_ghost: "off_map (heap (fst st) k) \<Longrightarrow> fold (eatPlayer k) bs st = st"
proof (induction bs)
  case Nil
  show ?case by simp
next
  case (Cons b bs)
  from eatPlayer_ghost [of "fst st" k k b "snd st"] Cons show ?case by simp
qed

lemma inner_alike:
  assumes "off_map g" "a \<noteq> k"
  shows "alike k s t \<Longrightarrow> heap s k = g \<Longrightarrow>
     alike k (fst (fold (eatPlayer a) bs (s, e))) (fst (fold (eatPlayer a) (removeAll k bs) (t, e))) \<and>
     snd (fold (eatPlayer a) bs (s, e)) = snd (fold (eatPlayer a) (removeAll k bs) (t, e)) \<and>
     heap (fst (fold (eatPlayer a) bs (s, e))) k = g"
proof (induction bs arbitrary: s t e)
  case Nil
  then show ?case by simp
next
  case (Cons b bs)
  show ?case
  proof (cases "b = k")
    case True
    from Cons.prems assms have "off_map (heap s k)" by simp
    then have "eatPlayer a k (s, e) = (s, e)"
      by (rule eatPlayer_ghost) simp
    with Cons.IH [OF Cons.prems] True show ?thesis by simp
  next
    case False
    obtain s' e' where 1: "eatPlayer a b (s, e) = (s', e')" by (cases "eatPlayer a b (s, e)")
    obtain t' e'' where 2: "eatPlayer a b (t, e) = (t', e'')" by (cases "eatPlayer a b (t, e)")
    from eatPlayer_alike [OF assms(2) False Cons.prems(1), of e] 1 2 Cons.prems(2)
    have 3: "alike k s' t'" "e'' = e'" "heap s' k = g" by simp_all
    from Cons.IH [OF 3(1,3), of e'] False 1 2 3(2) show ?thesis by simp
  qed
qed

lemma outer_alike:
  assumes "off_map g"
  shows "alike k s t \<Longrightarrow> heap s k = g \<Longrightarrow>
     alike k (fst (fold eatLoop as (s, e))) (fst (fold eatLoop (removeAll k as) (t, e))) \<and>
     snd (fold eatLoop as (s, e)) = snd (fold eatLoop (removeAll k as) (t, e)) \<and>
     heap (fst (fold eatLoop as (s, e))) k = g"
proof (induction as arbitrary: s t e)
  case Nil
  then show ?case by simp
next
  case (Cons a as)
  show ?case
  proof (cases "a = k")
    case True
    from Cons.prems assms have "eatLoop k (s, e) = (s, e)"
      by (simp add: eatLoop_def eatLoop_ghost)
    with Cons.IH [OF Cons.prems] True show ?thesis by simp
  next
    case False
    from Cons.prems(1) have p: "players t = removeAll k (players s)"
      by (simp add: alike_def Map_delete_def)
    obtain s' e' where 1: "eatLoop a (s, e) = (s', e')" by (cases "eatLoop a (s, e)")
    obtain t' e'' where 2: "eatLoop a (t, e) = (t', e'')" by (cases "eatLoop a (t, e)")
    from inner_alike [OF assms False Cons.prems, of "players s" e] 1 2
    have 3: "alike k s' t'" "e'' = e'" "heap s' k = g" by (simp_all add: eatLoop_def p)
    from Cons.IH [OF 3(1,3), of e'] False 1 2 3(2) show ?thesis by simp
  qed
qed

lemma alike_playerPhase:
  "off_map (heap s k) \<Longrightarrow> alike k s t \<Longrightarrow>
   alike k (fst (playerPhase s)) (fst (playerPhase t)) \<and>
   snd (playerPhase s) = snd (playerPhase t) \<and> heap (fst (playerPhase s)) k = heap s k"
  using outer_alike [where g = "heap s k" and k = k and s = s and t = t and as = "players s"
      and e = "[]"]
  by (simp add: playerPhase_def alike_def Map_delete_def)

lemma alike_departed: "alike k s (departed k s)"
  by (simp add: alike_def departed_def)

lemma ghost_collided:
  assumes "k \<in> set (players s)" "ghost (heap s k)"
  shows "alike k (fst (collided s)) (fst (collided (departed k s))) \<and>
         snd (collided s) = snd (collided (departed k s)) \<and>
         heap (fst (collided s)) k = heap (movePhase s) k \<and>
         off_map (heap (movePhase s) k) \<and> inert (heap s k) (heap (movePhase s) k)"
proof -
  let ?t = "departed k s"
  have i: "inert (heap s k) (heap (movePhase s) k)"
    using movePhase_inert_aux [OF inert_refl] by (simp add: movePhase_def)
  have o: "off_map (heap (movePhase s) k)"
    using movePhase_ghost_aux [where ?p0.0 = "heap s k" and s = s and k = k and ks = "players s",
        OF assms(2) inert_refl] assms(1)
    by (simp add: movePhase_def)
  have 1: "alike k (movePhase s) (movePhase ?t)"
    by (rule alike_movePhase) (rule alike_departed)
  note 2 = alike_pelletPhase [OF o 1]
  from 2 o have o2: "off_map (heap (pelletPhase (movePhase s)) k)" by simp
  from 2 have "alike k (pelletPhase (movePhase s)) (pelletPhase (movePhase ?t))" by simp
  note 3 = alike_playerPhase [OF o2 this]
  from 2 3 i o show ?thesis by (simp add: collided_def)
qed


lemma removeEaten_eq:
  "removeEaten e s = s\<lparr>players := filter (\<lambda>k. k \<notin> set e) (players s)\<rparr>"
proof (induction e arbitrary: s)
  case Nil
  show ?case by (simp add: removeEaten_def)
next
  case (Cons j e)
  have "removeEaten (j # e) s = removeEaten e (s\<lparr>players := Map_delete j (players s)\<rparr>)"
    by (simp add: removeEaten_def)
  also have "\<dots> = s\<lparr>players := filter (\<lambda>k. k \<notin> set (j # e)) (players s)\<rparr>"
    by (simp add: Cons.IH Map_delete_def removeAll_filter_not_eq conj_commute eq_commute)
  finally show ?case .
qed

lemma alike_tick:
  assumes "alike k (fst (collided s)) (fst (collided t))" "snd (collided s) = snd (collided t)"
  shows "alike k (tick s) (tick t)"
proof -
  obtain s3 e where 1: "collided s = (s3, e)" by (cases "collided s")
  obtain t3 e' where 2: "collided t = (t3, e')" by (cases "collided t")
  from assms 1 2 show ?thesis
    by (simp add: tick_def broadcast_def removeEaten_eq alike_def Map_delete_def
        removeAll_filter_not_eq conj_commute)
qed

text \<open>
  C3, as it holds of the code. The loop has no check for numbers that are not finite and
  skips nobody: a tick is a total function of the state and completes whatever the
  numbers are. A player of the Map that starts the tick with a \<open>NaN\<close> coordinate, or with
  the radius \<open>NaN\<close> or \<open>+Infinity\<close>, is moved like every other player, and the movement
  leaves it with a coordinate that is not finite; from then on every distance to it is
  \<open>NaN\<close> or \<open>+Infinity\<close>, so it eats no pellet and no player and is not eaten. Its
  radius, score, name, color and heading are as before, a \<open>NaN\<close> coordinate stays
  \<open>NaN\<close>, and it is in the Map after the tick. The rest of the world is processed as if
  the player were not in the Map: the same players are eaten in the same order, and the
  other objects, the pellets, the final scores submitted and the random values consumed
  are the same as in the tick of the state without it.
\<close>

theorem C3_nonfinite_inert:
  assumes "k \<in> set (players s)"
    and "x (heap s k) = NaN \<or> y (heap s k) = NaN \<or> radius (heap s k) = NaN \<or> radius (heap s k) = PInf"
  shows "k \<notin> set (snd (collided s)) \<and> k \<in> set (players (tick s)) \<and>
         radius (heap (tick s) k) = radius (heap s k) \<and>
         score (heap (tick s) k) = score (heap s k) \<and>
         name (heap (tick s) k) = name (heap s k) \<and>
         color (heap (tick s) k) = color (heap s k) \<and>
         dirX (heap (tick s) k) = dirX (heap s k) \<and>
         dirY (heap (tick s) k) = dirY (heap s k) \<and>
         (x (heap s k) = NaN \<longrightarrow> x (heap (tick s) k) = NaN) \<and>
         (y (heap s k) = NaN \<longrightarrow> y (heap (tick s) k) = NaN) \<and>
         (\<not> isFinite (x (heap (tick s) k)) \<or> \<not> isFinite (y (heap (tick s) k))) \<and>
         heap (tick s) k = heap (movePhase s) k \<and>
         step Tick s = Inr (tick s) \<and>
         snd (collided s) = snd (collided (departed k s)) \<and>
         (\<forall>j. j \<noteq> k \<longrightarrow> heap (tick s) j = heap (tick (departed k s)) j) \<and>
         pellets (tick s) = pellets (tick (departed k s)) \<and>
         submitted (tick s) = submitted (tick (departed k s)) \<and>
         rnd (tick s) = rnd (tick (departed k s)) \<and>
         Map_delete k (players (tick s)) = players (tick (departed k s))"
proof -
  from assms(2) have g: "ghost (heap s k)" by (simp add: ghost_def)
  note c = ghost_collided [OF assms(1) g]
  from c have a: "alike k (tick s) (tick (departed k s))"
    by (intro alike_tick) simp_all
  have "set (snd (collided (departed k s))) \<subseteq> set (players (departed k s))"
    using set_playerPhase [of "pelletPhase (movePhase (departed k s))"] by (simp add: collided_def)
  with c have n: "k \<notin> set (snd (collided s))"
    by (auto simp: departed_def Map_delete_def)
  from c have h: "heap (tick s) k = heap (movePhase s) k" by (simp add: heap_tick)
  from c have "inert (heap s k) (heap (movePhase s) k)" "off_map (heap (movePhase s) k)"
    by simp_all
  with h have i: "inert (heap s k) (heap (tick s) k)" "off_map (heap (tick s) k)" by simp_all
  from n assms(1) have p: "k \<in> set (players (tick s))" by (simp add: players_tick)
  from c have e: "snd (collided s) = snd (collided (departed k s))" by simp
  from i have 1: "radius (heap (tick s) k) = radius (heap s k) \<and>
         score (heap (tick s) k) = score (heap s k) \<and>
         name (heap (tick s) k) = name (heap s k) \<and>
         color (heap (tick s) k) = color (heap s k) \<and>
         dirX (heap (tick s) k) = dirX (heap s k) \<and>
         dirY (heap (tick s) k) = dirY (heap s k) \<and>
         (x (heap s k) = NaN \<longrightarrow> x (heap (tick s) k) = NaN) \<and>
         (y (heap s k) = NaN \<longrightarrow> y (heap (tick s) k) = NaN) \<and>
         (\<not> isFinite (x (heap (tick s) k)) \<or> \<not> isFinite (y (heap (tick s) k)))"
    by (simp add: inert_def off_map_def)
  from a have 2: "(\<forall>j. j \<noteq> k \<longrightarrow> heap (tick s) j = heap (tick (departed k s)) j) \<and>
         pellets (tick s) = pellets (tick (departed k s)) \<and>
         submitted (tick s) = submitted (tick (departed k s)) \<and>
         rnd (tick s) = rnd (tick (departed k s)) \<and>
         Map_delete k (players (tick s)) = players (tick (departed k s))"
    by (simp add: alike_def)
  have 3: "step Tick s = Inr (tick s)" by simp
  from n p 1 h 3 e 2 show ?thesis by blast
qed


lemma movePhase_haunted:
  "movePhase haunted = haunted\<lparr>heap := (heap haunted)
      (3 := (heap haunted 3)\<lparr>x := NaN, y := NaN\<rparr>, 4 := (heap haunted 4)\<lparr>x := NInf, y := NInf\<rparr>)\<rparr>"
  by (simp add: movePhase_def moveStep_def haunted_def one_pellet_def duel_def movePlayer_pA
      movePlayer_pB fun_eq_iff)
     (simp add: movePlayer_def constants_defs Let_def)

lemma sqrt_416: "\<not> sqrt 416 < 5" "10 < sqrt 416 * 3"
proof -
  have "20 < sqrt 416" by (rule real_less_rsqrt) simp
  then show "\<not> sqrt 416 < 5" "10 < sqrt 416 * 3" by simp_all
qed

lemma sqrt_441: "sqrt 441 = 21"
  using real_sqrt_abs [of 21] by simp

lemma pelletPhase_haunted:
  "pelletPhase (movePhase haunted) =
     haunted\<lparr>heap := (heap haunted)
          (1 := pA\<lparr>radius := Fin (sqrt 416), score := Fin 416\<rparr>,
           3 := (heap haunted 3)\<lparr>x := NaN, y := NaN\<rparr>,
           4 := (heap haunted 4)\<lparr>x := NInf, y := NInf\<rparr>),
        pellets := [\<lparr>px = Fin 1000, py = Fin 1000\<rparr>]\<rparr>"
  by (simp add: movePhase_haunted)
     (simp add: pelletPhase_def pelletLoop_def haunted_def one_pellet_def duel_def eatPellet_def
       pA_def pB_def Constants_dist_def Math_random_def consumePellet_def constants_defs
       far_pellet sqrt_416 Let_def fun_eq_iff)

lemma collided_haunted:
  "snd (collided haunted) = [2] \<and>
   heap (fst (collided haunted)) 1 = pA\<lparr>radius := Fin 21, score := Fin 441\<rparr> \<and>
   pellets (fst (collided haunted)) = [\<lparr>px = Fin 1000, py = Fin 1000\<rparr>]"
proof -
  define s2 where "s2 = pelletPhase (movePhase haunted)"
  define s3 where "s3 = handlePlayerDeath 2 (s2\<lparr>heap := (heap s2)(1 := consumePlayer (heap s2 1) (heap s2 2))\<rparr>)"
  have h2: "heap s2 1 = pA\<lparr>radius := Fin (sqrt 416), score := Fin 416\<rparr>" "heap s2 2 = pB"
    "off_map (heap s2 3)" "off_map (heap s2 4)" "players s2 = [1, 2, 3, 4]"
    "pellets s2 = [\<lparr>px = Fin 1000, py = Fin 1000\<rparr>]"
    by (simp_all add: s2_def pelletPhase_haunted off_map_def)
       (simp_all add: haunted_def one_pellet_def duel_def)
  have h3: "heap s3 1 = pA\<lparr>radius := Fin 21, score := Fin 441\<rparr>" "radius (heap s3 2) = Fin 10"
    "off_map (heap s3 3)" "off_map (heap s3 4)" "players s3 = [1, 2, 3, 4]"
    "pellets s3 = [\<lparr>px = Fin 1000, py = Fin 1000\<rparr>]"
    using h2
    by (simp_all add: s3_def heap_handlePlayerDeath_other radius_handlePlayerDeath constants_defs)
       (simp_all add: consumePlayer_def pA_def pB_def sqrt_441 Let_def)
  have d: "Constants_dist (x (heap s2 1)) (y (heap s2 1)) (x (heap s2 2)) (y (heap s2 2))
             < radius (heap s2 1) * Fin (9 / 10)"
    using sqrt_416
    by (simp add: h2 pA_def pB_def Constants_dist_def hypot_axis del: Math_hypot.simps One_nat_def)
  have r: "\<not> radius (heap s2 1) < radius (heap s2 2)"
    by (simp add: h2 pA_def pB_def sqrt_416 del: One_nat_def)
  have 12: "eatPlayer 1 2 (s2, []) = (s3, [2])"
    using eatPlayer_eats [of 1 2 s2 "[]", OF _ r d] by (simp add: s3_def)
  have 1: "eatLoop 1 (s2, []) = (s3, [2])"
    by (simp add: eatLoop_def h2 eatPlayer_self 12 eatPlayer_ghost [OF h3(3)] eatPlayer_ghost [OF h3(4)]
        del: One_nat_def)
  have 21: "eatPlayer 2 1 (s3, [2]) = (s3, [2])"
    by (rule eatPlayer_smaller) (simp add: h3 pA_def del: One_nat_def)
  have 2: "eatLoop 2 (s3, [2]) = (s3, [2])"
    by (simp add: eatLoop_def h3 eatPlayer_self 21 eatPlayer_ghost [OF h3(3)] eatPlayer_ghost [OF h3(4)]
        del: One_nat_def)
  have 3: "eatLoop 3 (s3, [2]) = (s3, [2])" "eatLoop 4 (s3, [2]) = (s3, [2])"
    unfolding eatLoop_def by (rule eatLoop_ghost, simp add: h3)+
  have "playerPhase s2 = (s3, [2])"
    by (simp add: playerPhase_def h2 1 2 3 del: One_nat_def)
  then show ?thesis by (simp add: collided_def s2_def [symmetric] h3 del: One_nat_def)
qed


theorem C3_nonfinite_inert_witness:
  "3 \<in> set (players haunted) \<and> radius (heap haunted 3) = NaN \<and> x (heap haunted 3) = Fin 105 \<and>
   4 \<in> set (players haunted) \<and> radius (heap haunted 4) = PInf \<and>
   snd (collided haunted) = [2] \<and> 3 \<notin> set (snd (collided haunted)) \<and>
   4 \<notin> set (snd (collided haunted)) \<and> players (tick haunted) = [1, 3, 4] \<and>
   radius (heap (tick haunted) 3) = NaN \<and> score (heap (tick haunted) 3) = Fin 100 \<and>
   x (heap (tick haunted) 3) = NaN \<and>
   radius (heap (tick haunted) 4) = PInf \<and> x (heap (tick haunted) 4) = NInf \<and>
   heap (tick haunted) 1 = pA\<lparr>radius := Fin 21, score := Fin 441\<rparr> \<and>
   heap (tick (departed 3 haunted)) 1 = pA\<lparr>radius := Fin 21, score := Fin 441\<rparr> \<and>
   pellets (tick (departed 3 haunted)) = [\<lparr>px = Fin 1000, py = Fin 1000\<rparr>] \<and>
   players (tick (departed 3 haunted)) = [1, 4]"
proof -
  have p: "3 \<in> set (players haunted)" "4 \<in> set (players haunted)"
    "players haunted = [1, 2, 3, 4]"
    by (simp_all add: haunted_def)
  have g: "radius (heap haunted 3) = NaN" "radius (heap haunted 4) = PInf"
    "x (heap haunted 3) = Fin 105" "score (heap haunted 3) = Fin 100"
    by (simp_all add: haunted_def)
  have m: "x (heap (movePhase haunted) 3) = NaN" "x (heap (movePhase haunted) 4) = NInf"
    by (simp_all add: movePhase_haunted)
  note c = collided_haunted
  have t1: "heap (tick haunted) 1 = pA\<lparr>radius := Fin 21, score := Fin 441\<rparr>"
    "players (tick haunted) = [1, 3, 4]"
    using c by (simp_all add: heap_tick players_tick p(3) del: One_nat_def)
  have t2: "pellets (tick haunted) = [\<lparr>px = Fin 1000, py = Fin 1000\<rparr>]"
    using c by (cases "collided haunted") (simp add: tick_def broadcast_def)
  have q: "x (heap haunted 3) = NaN \<or> y (heap haunted 3) = NaN \<or> radius (heap haunted 3) = NaN \<or>
      radius (heap haunted 3) = PInf"
    "x (heap haunted 4) = NaN \<or> y (heap haunted 4) = NaN \<or> radius (heap haunted 4) = NaN \<or>
      radius (heap haunted 4) = PInf"
    by (simp_all add: g)
  note a3 = C3_nonfinite_inert [OF p(1) q(1)]
  note a4 = C3_nonfinite_inert [OF p(2) q(2)]
  from a3 have n3: "3 \<notin> set (snd (collided haunted))" by blast
  from a4 have n4: "4 \<notin> set (snd (collided haunted))" by blast
  from a3 have "radius (heap (tick haunted) 3) = radius (heap haunted 3)"
    "score (heap (tick haunted) 3) = score (heap haunted 3)"
    "heap (tick haunted) 3 = heap (movePhase haunted) 3"
    by blast+
  with g m have f3: "radius (heap (tick haunted) 3) = NaN" "score (heap (tick haunted) 3) = Fin 100"
    "x (heap (tick haunted) 3) = NaN"
    by simp_all
  from a4 have "radius (heap (tick haunted) 4) = radius (heap haunted 4)"
    "heap (tick haunted) 4 = heap (movePhase haunted) 4"
    by blast+
  with g m have f4: "radius (heap (tick haunted) 4) = PInf" "x (heap (tick haunted) 4) = NInf"
    by simp_all
  from a3 have "\<forall>j. j \<noteq> 3 \<longrightarrow> heap (tick haunted) j = heap (tick (departed 3 haunted)) j"
    "pellets (tick haunted) = pellets (tick (departed 3 haunted))"
    "Map_delete 3 (players (tick haunted)) = players (tick (departed 3 haunted))"
    by blast+
  with t1 t2 have e: "heap (tick (departed 3 haunted)) 1 = pA\<lparr>radius := Fin 21, score := Fin 441\<rparr>"
    "pellets (tick (departed 3 haunted)) = [\<lparr>px = Fin 1000, py = Fin 1000\<rparr>]"
    "players (tick (departed 3 haunted)) = [1, 4]"
    by (simp_all add: Map_delete_def del: One_nat_def)
  from c have c1: "snd (collided haunted) = [2]" by blast
  from p g c1 n3 n4 t1 f3 f4 e show ?thesis by (simp del: One_nat_def)
qed

lemma heap_collided_lost:
  "heap (fst (collided lost)) 1 =
     \<lparr>name = ''A'', x = NaN, y = Fin 104, radius = Fin 10,
      dirX = Fin (3 / 5), dirY = Fin (4 / 5), color = Fin 0, score = Fin 100\<rparr>"
proof -
  have m: "movePhase lost = lost\<lparr>heap := (\<lambda>_. no_player)(1 := \<lparr>name = ''A'', x = NaN, y = Fin 104,
                     radius = Fin 10, dirX = Fin (3 / 5), dirY = Fin (4 / 5), color = Fin 0,
                     score = Fin 100\<rparr>)\<rparr>"
    by (simp add: movePhase_def moveStep_def lost_def duel_def movePlayer_def constants_defs
        Let_def fun_eq_iff)
  show ?thesis
    by (simp add: collided_def m)
       (simp add: pelletPhase_def pelletLoop_def playerPhase_def eatLoop_def eatPlayer_def
          lost_def duel_def)
qed

lemma movePhase_stray:
  "movePhase stray = stray\<lparr>heap := (\<lambda>_. no_player)(1 := pA\<lparr>x := Fin 1980\<rparr>, 2 := pB\<lparr>x := Fin 1995\<rparr>)\<rparr>"
  by (simp add: movePhase_def moveStep_def stray_def duel_def fun_eq_iff)
     (simp add: movePlayer_def pA_def pB_def constants_defs Let_def)

lemma eaten_stray: "snd (collided stray) = [2]"
  by (simp add: collided_def movePhase_stray)
     (simp add: pelletPhase_def pelletLoop_def playerPhase_def eatLoop_def stray_def duel_def
       eatPlayer_def pA_def pB_def Constants_dist_def hypot_axis consumePlayer_def
       handlePlayerDeath_def getRandomSpawn_def Math_random_def Map_set_def constants_defs
       sqrt_425 Let_def del: Math_hypot.simps)

lemma movePhase_hollow: "movePhase hollow = hollow"
  by (simp add: movePhase_def moveStep_def hollow_def duel_def fun_eq_iff movePlayer_pA)
     (simp add: movePlayer_def pB_def constants_defs Let_def)

lemma eaten_hollow: "snd (collided hollow) = [2]"
  by (simp add: collided_def movePhase_hollow)
     (simp add: pelletPhase_def pelletLoop_def playerPhase_def eatLoop_def hollow_def duel_def
       eatPlayer_def pA_def pB_def Constants_dist_def hypot_axis consumePlayer_def
       handlePlayerDeath_def getRandomSpawn_def Math_random_def Map_set_def constants_defs
       Let_def del: Math_hypot.simps)

text \<open>
  The claim C3 as stated fails. The movement pass does use the state of a player with a
  \<open>NaN\<close> coordinate: in the world \<open>lost\<close> the player moves from \<open>y = 100\<close> to
  \<open>y = 104\<close>. A player with an infinite coordinate is not skipped either: in the world
  \<open>stray\<close> the movement pass clamps B from \<open>x = +Infinity\<close> to \<open>x = 1995\<close>, and A eats
  it in the same tick. Nor is a player with the radius \<open>-Infinity\<close>: in the world
  \<open>hollow\<close> A eats B.
\<close>

theorem C3_counterexample:
  "1 \<in> set (players lost) \<and> \<not> isFinite (x (heap lost 1)) \<and> y (heap lost 1) = Fin 100 \<and>
   y (heap (tick lost) 1) = Fin 104 \<and>
   2 \<in> set (players stray) \<and> x (heap stray 2) = PInf \<and>
   x (heap (movePhase stray) 2) = Fin 1995 \<and> snd (collided stray) = [2] \<and>
   2 \<in> set (players hollow) \<and> radius (heap hollow 2) = NInf \<and> snd (collided hollow) = [2]"
proof -
  have "y (heap (tick lost) 1) = Fin 104"
    by (simp only: heap_tick heap_collided_lost) simp
  moreover have "x (heap (movePhase stray) 2) = Fin 1995"
    by (simp add: movePhase_stray)
  ultimately show ?thesis
    by (simp add: eaten_stray eaten_hollow) (simp add: lost_def stray_def hollow_def duel_def)
qed

section \<open>Two players of equal radius\<close>

lemma eaten_mono_eatPlayer: "set (snd st) \<subseteq> set (snd (eatPlayer a b st))"
  using eatPlayer_eaten [of a b "fst st" "snd st"] by auto

lemma eaten_mono_inner: "set (snd st) \<subseteq> set (snd (fold (eatPlayer a) bs st))"
proof (induction bs arbitrary: st)
  case Nil
  show ?case by simp
next
  case (Cons b bs)
  from Cons.IH [of "eatPlayer a b st"] eaten_mono_eatPlayer [of st a b] show ?case by auto
qed

lemma eaten_mono_outer: "set (snd st) \<subseteq> set (snd (fold eatLoop as st))"
proof (induction as arbitrary: st)
  case Nil
  show ?case by simp
next
  case (Cons a as)
  from Cons.IH [of "eatLoop a st"] eaten_mono_inner [of st a "players (fst st)"]
  show ?case by (auto simp: eatLoop_def)
qed

lemma isFinite_iff: "isFinite v \<longleftrightarrow> (\<exists>a. v = Fin a)"
  by (cases v) simp_all

lemma pending_eatPlayer:
  assumes "c \<noteq> f" "c \<noteq> g" "pending f g F G st"
  shows "pending f g F G (eatPlayer c d st)"
proof -
  obtain s e where st: "st = (s, e)" by (cases st)
  show ?thesis
  proof (cases "d = f \<or> d = g")
    case True
    with assms st show ?thesis
      by (auto simp: pending_def eatPlayer_def Let_def)
  next
    case False
    with assms st show ?thesis
      by (auto simp: pending_def eatPlayer_def Let_def heap_handlePlayerDeath_other)
  qed
qed

lemma pending_inner:
  "c \<noteq> f \<Longrightarrow> c \<noteq> g \<Longrightarrow> pending f g F G st \<Longrightarrow> pending f g F G (fold (eatPlayer c) ds st)"
  by (induction ds arbitrary: st) (simp_all add: pending_eatPlayer)

lemma pending_outer:
  "f \<notin> set cs \<Longrightarrow> g \<notin> set cs \<Longrightarrow> pending f g F G st \<Longrightarrow> pending f g F G (fold eatLoop cs st)"
proof (induction cs arbitrary: st)
  case Nil
  then show ?case by simp
next
  case (Cons c cs)
  from Cons.prems have "c \<noteq> f" "c \<noteq> g" by auto
  from pending_inner [OF this Cons.prems(3), of "players (fst st)"]
  have "pending f g F G (eatLoop c st)" by (simp add: eatLoop_def)
  with Cons.IH [of "eatLoop c st"] Cons.prems show ?case by simp
qed

lemma sqrt_grows:
  fixes rf rd :: real
  assumes "0 \<le> rf"
  shows "rf \<le> sqrt (rf * rf + rd * rd)"
proof -
  have "rf\<^sup>2 \<le> rf * rf + rd * rd" by (simp add: power2_eq_square)
  then have "sqrt (rf\<^sup>2) \<le> sqrt (rf * rf + rd * rd)" by (simp only: real_sqrt_le_iff)
  with assms show ?thesis by simp
qed

lemma hypot_range:
  "Math_hypot u w = NaN \<or> Math_hypot u w = PInf \<or> (\<exists>v\<ge>0. Math_hypot u w = Fin v)"
  by (cases u; cases w) simp_all

lemma dist_sym: "Constants_dist x1 y1 x2 y2 = Constants_dist x2 y2 x1 y1"
proof -
  have sq: "(a - b) * (a - b) = (b - a) * (b - a)" for a b :: real
    by (simp add: algebra_simps)
  have m: "Math_hypot (u - v) (u' - v') = Math_hypot (v - u) (v' - u')" for u v u' v' :: num
    by (cases u; cases v; cases u'; cases v') (simp_all add: sq)
  show ?thesis by (simp add: Constants_dist_def m)
qed

lemma eats_on_map:
  assumes "Constants_dist (x p) (y p) (x q) (y q) < v"
  shows "\<not> off_map p" "\<not> off_map q"
  using assms dist_off_map [of "x p" "y p" "x q" "y q" v] by (auto simp: off_map_def)

lemma grown_not_NaN: "u \<noteq> NaN \<Longrightarrow> w \<noteq> NaN \<Longrightarrow> Math_sqrt (u * u + w * w) \<noteq> NaN"
proof -
  have h: "(a * a + b * b < 0) = False" for a b :: real by (simp add: not_less)
  show "u \<noteq> NaN \<Longrightarrow> w \<noteq> NaN \<Longrightarrow> Math_sqrt (u * u + w * w) \<noteq> NaN"
    by (cases u; cases w) (simp_all add: h)
qed

lemma grown_ge:
  assumes "0 \<le> r" "Fin r \<le> u" "w \<noteq> NaN"
  shows "Fin r \<le> Math_sqrt (u * u + w * w)"
proof -
  have h: "(a * a + b * b < 0) = False" for a b :: real by (simp add: not_less)
  have g: "r \<le> sqrt (a * a + b * b)" if "r \<le> a" for a b
    using sqrt_grows [of a b] that assms(1) by linarith
  from assms(2,3) show ?thesis
    by (cases u; cases w) (simp_all add: h g)
qed

lemma grounded_eatPlayer:
  assumes "grounded ps (fst st)" "c \<in> set ps" "d \<in> set ps"
  shows "grounded ps (fst (eatPlayer c d st))"
proof -
  obtain s e where st: "st = (s, e)" by (cases st)
  show ?thesis
  proof (cases "eatPlayer c d (s, e) = (s, e)")
    case True
    with assms st show ?thesis by simp
  next
    case False
    then have cd: "c \<noteq> d" and
      near: "Constants_dist (x (heap s c)) (y (heap s c)) (x (heap s d)) (y (heap s d))
               < radius (heap s c) * Fin (9 / 10)" and
      eq: "eatPlayer c d (s, e) =
        (handlePlayerDeath d (s\<lparr>heap := (heap s)(c := consumePlayer (heap s c) (heap s d))\<rparr>),
         e @ [d])"
      by (auto simp: eatPlayer_def Let_def split: if_splits)
    from eats_on_map [OF near] assms st
    have n: "radius (heap s c) \<noteq> NaN" "radius (heap s d) \<noteq> NaN"
      by (auto simp: grounded_def)
    have r: "radius (consumePlayer (heap s c) (heap s d)) \<noteq> NaN"
      "x (consumePlayer (heap s c) (heap s d)) = x (heap s c)"
      "y (consumePlayer (heap s c) (heap s d)) = y (heap s c)"
      using grown_not_NaN [OF n] by (simp_all add: consumePlayer_def Let_def)
    have "radius (heap (fst (eatPlayer c d (s, e))) k) = NaN \<longrightarrow>
          off_map (heap (fst (eatPlayer c d (s, e))) k)" if "k \<in> set ps" for k
    proof (cases "k = d")
      case True
      then show ?thesis by (simp add: eq radius_handlePlayerDeath INITIAL_RADIUS_def)
    next
      case kd: False
      show ?thesis
      proof (cases "k = c")
        case True
        with kd r show ?thesis by (simp add: eq heap_handlePlayerDeath_other)
      next
        case False
        with kd assms(1) st that show ?thesis
          by (simp add: eq heap_handlePlayerDeath_other grounded_def)
      qed
    qed
    with st show ?thesis by (simp add: grounded_def)
  qed
qed

lemma grounded_inner:
  "grounded ps (fst st) \<Longrightarrow> c \<in> set ps \<Longrightarrow> set ds \<subseteq> set ps \<Longrightarrow>
   grounded ps (fst (fold (eatPlayer c) ds st))"
  by (induction ds arbitrary: st) (simp_all add: grounded_eatPlayer)

lemma grounded_outer:
  "grounded ps (fst st) \<Longrightarrow> players (fst st) = ps \<Longrightarrow> set cs \<subseteq> set ps \<Longrightarrow>
   grounded ps (fst (fold eatLoop cs st)) \<and> players (fst (fold eatLoop cs st)) = ps"
proof (induction cs arbitrary: st)
  case Nil
  then show ?case by simp
next
  case (Cons c cs)
  from Cons.prems have c: "c \<in> set ps" by simp
  from grounded_inner [OF Cons.prems(1) c, of ps] Cons.prems(2)
  have 1: "grounded ps (fst (eatLoop c st))" by (simp add: eatLoop_def)
  from inner_frame [of "players (fst st)" st c] Cons.prems(2)
  have 2: "players (fst (eatLoop c st)) = ps" by (simp add: eatLoop_def)
  from Cons.IH [OF 1 2] Cons.prems(3) show ?case by simp
qed


lemma holding_eatPlayer:
  assumes gr: "grounded ps (fst st)" and mem: "f \<in> set ps" "d \<in> set ps" and fg: "f \<noteq> g"
    and rG: "radius G = Fin r"
    and near: "Constants_dist (x F) (y F) (x G) (y G) < Fin r * Fin (9 / 10)"
    and hold: "holding f g r F G st"
  shows "holding f g r F G (eatPlayer f d st) \<and>
         (d = g \<longrightarrow> f \<in> set (snd (eatPlayer f d st)) \<or> g \<in> set (snd (eatPlayer f d st)))"
proof -
  obtain s e where st: "st = (s, e)" by (cases st)
  show ?thesis
  proof (cases "f \<in> set e \<or> g \<in> set e")
    case True
    with eaten_mono_eatPlayer [of st f d] st show ?thesis
      by (auto simp: holding_def)
  next
    case False
    with hold st have
      g: "heap s g = G" and pos: "x (heap s f) = x F" "y (heap s f) = y F"
      and rf: "Fin r \<le> radius (heap s f)"
      by (auto simp: holding_def)
    from near hypot_range [of "x F - x G" "y F - y G"]
    obtain v where v: "Constants_dist (x F) (y F) (x G) (y G) = Fin v" "v < r * (9 / 10)"
      and vpos: "0 \<le> v"
      by (auto simp: Constants_dist_def)
    from vpos v(2) have rpos: "0 < r" by simp
    show ?thesis
    proof (cases "d = g")
      case True
      from v rf have "Constants_dist (x (heap s f)) (y (heap s f)) (x (heap s g)) (y (heap s g))
            < radius (heap s f) * Fin (9 / 10)"
        by (cases "radius (heap s f)") (simp_all add: pos g)
      moreover from rf rG g have "\<not> radius (heap s f) < radius (heap s g)"
        by (cases "radius (heap s f)") simp_all
      ultimately have "eatPlayer f g (s, e) =
          (handlePlayerDeath g (s\<lparr>heap := (heap s)(f := consumePlayer (heap s f) (heap s g))\<rparr>),
           e @ [g])"
        using eatPlayer_eats [of f g s e] fg False by simp
      with True st show ?thesis by (simp add: holding_def)
    next
      case dg: False
      show ?thesis
      proof (cases "eatPlayer f d (s, e) = (s, e)")
        case True
        with hold st dg show ?thesis by simp
      next
        case False
        then have fd: "f \<noteq> d" and
          nr: "Constants_dist (x (heap s f)) (y (heap s f)) (x (heap s d)) (y (heap s d))
               < radius (heap s f) * Fin (9 / 10)" and
          eq: "eatPlayer f d (s, e) =
            (handlePlayerDeath d (s\<lparr>heap := (heap s)(f := consumePlayer (heap s f) (heap s d))\<rparr>),
             e @ [d])"
          by (auto simp: eatPlayer_def Let_def split: if_splits)
        from eats_on_map(2) [OF nr] gr mem(2) st have "radius (heap s d) \<noteq> NaN"
          by (auto simp: grounded_def)
        from grown_ge [OF _ rf this] rpos
        have "Fin r \<le> radius (consumePlayer (heap s f) (heap s d))"
          by (simp add: consumePlayer_def Let_def)
        with g pos dg fg fd st show ?thesis
          by (simp add: eq holding_def heap_handlePlayerDeath_other consumePlayer_def Let_def)
      qed
    qed
  qed
qed

lemma holding_inner:
  assumes mem: "f \<in> set ps" and fg: "f \<noteq> g" and rG: "radius G = Fin r"
    and near: "Constants_dist (x F) (y F) (x G) (y G) < Fin r * Fin (9 / 10)"
  shows "grounded ps (fst st) \<Longrightarrow> set ds \<subseteq> set ps \<Longrightarrow> holding f g r F G st \<Longrightarrow>
     holding f g r F G (fold (eatPlayer f) ds st) \<and>
     (g \<in> set ds \<longrightarrow> f \<in> set (snd (fold (eatPlayer f) ds st))
                      \<or> g \<in> set (snd (fold (eatPlayer f) ds st)))"
proof (induction ds arbitrary: st)
  case Nil
  then show ?case by simp
next
  case (Cons d ds)
  from Cons.prems have d: "d \<in> set ps" and ds: "set ds \<subseteq> set ps" by simp_all
  note step = holding_eatPlayer [OF Cons.prems(1) mem d fg rG near Cons.prems(3)]
  have gr': "grounded ps (fst (eatPlayer f d st))"
    by (rule grounded_eatPlayer [OF Cons.prems(1) mem d])
  note ih = Cons.IH [OF gr' ds conjunct1 [OF step]]
  have mono: "set (snd (eatPlayer f d st)) \<subseteq> set (snd (fold (eatPlayer f) ds (eatPlayer f d st)))"
    by (rule eaten_mono_inner)
  from step ih mono show ?case by auto
qed

lemma first_of_pair_eats:
  assumes ps: "players s = as1 @ f # as2" and nf: "f \<notin> set as1" and ng: "g \<notin> set as1"
    and gm: "g \<in> set (players s)" and fg: "f \<noteq> g"
    and gr: "grounded (players s) s"
    and rF: "radius (heap s f) = Fin r" and rG: "radius (heap s g) = Fin r"
    and near: "Constants_dist (x (heap s f)) (y (heap s f)) (x (heap s g)) (y (heap s g))
                 < Fin r * Fin (9 / 10)"
  shows "f \<in> set (snd (playerPhase s)) \<or> g \<in> set (snd (playerPhase s))"
proof -
  let ?F = "heap s f" and ?G = "heap s g" and ?ps = "players s"
  let ?st1 = "fold eatLoop as1 (s, [])"
  let ?st2 = "eatLoop f ?st1"
  have fm: "f \<in> set ?ps" using ps by simp
  have "pending f g ?F ?G (s, [])" by (simp add: pending_def)
  from pending_outer [OF nf ng this] have p1: "pending f g ?F ?G ?st1" .
  have sub: "set as1 \<subseteq> set ?ps" using ps by auto
  from grounded_outer [of ?ps "(s, [])" as1] gr sub
  have g1: "grounded ?ps (fst ?st1)" and pl1: "players (fst ?st1) = ?ps" by simp_all
  from p1 rF have h1: "holding f g r ?F ?G ?st1"
    by (auto simp: pending_def holding_def)
  from holding_inner [OF fm fg rG near g1 _ h1, of ?ps] gm
  have "f \<in> set (snd (fold (eatPlayer f) ?ps ?st1)) \<or> g \<in> set (snd (fold (eatPlayer f) ?ps ?st1))"
    by simp
  then have "f \<in> set (snd ?st2) \<or> g \<in> set (snd ?st2)"
    by (simp add: eatLoop_def pl1)
  moreover have "set (snd ?st2) \<subseteq> set (snd (fold eatLoop as2 ?st2))"
    by (rule eaten_mono_outer)
  moreover have "playerPhase s = fold eatLoop as2 ?st2"
    by (simp add: playerPhase_def ps)
  ultimately show ?thesis by auto
qed

lemma one_of_pair_eaten:
  assumes am: "a \<in> set (players s)" and bm: "b \<in> set (players s)" and ab: "a \<noteq> b"
    and gr: "grounded (players s) s"
    and ra: "radius (heap s a) = Fin r" and rb: "radius (heap s b) = Fin r"
    and near: "Constants_dist (x (heap s a)) (y (heap s a)) (x (heap s b)) (y (heap s b))
                 < Fin r * Fin (9 / 10)"
  shows "a \<in> set (snd (playerPhase s)) \<or> b \<in> set (snd (playerPhase s))"
proof -
  from am have "\<exists>k \<in> set (players s). k = a \<or> k = b" by blast
  from split_list_first_prop [OF this] obtain as1 f as2 where
    ps: "players s = as1 @ f # as2" and f: "f = a \<or> f = b"
    and n: "\<forall>k \<in> set as1. \<not> (k = a \<or> k = b)"
    by blast
  from n have na: "a \<notin> set as1" and nb: "b \<notin> set as1" by auto
  from f show ?thesis
  proof
    assume "f = a"
    with first_of_pair_eats [of s as1 a as2 b r] ps na nb bm ab gr ra rb near show ?thesis by simp
  next
    assume "f = b"
    moreover from near have "Constants_dist (x (heap s b)) (y (heap s b)) (x (heap s a)) (y (heap s a))
                 < Fin r * Fin (9 / 10)"
      by (simp add: dist_sym)
    ultimately show ?thesis
      using first_of_pair_eats [of s as1 b as2 a r] ps na nb am ab gr ra rb by auto
  qed
qed

lemma grounded_movePhase: "grounded (players s) (movePhase s)"
proof -
  have "off_map (heap (movePhase s) k)"
    if k: "k \<in> set (players s)" and n: "radius (heap (movePhase s) k) = NaN" for k
  proof -
    have i: "inert (heap s k) (heap (movePhase s) k)"
      using movePhase_inert_aux [OF inert_refl] by (simp add: movePhase_def)
    with n have "ghost (heap s k)" by (simp add: inert_def ghost_def)
    from movePhase_ghost_aux [where ?p0.0 = "heap s k" and s = s and k = k and ks = "players s",
        OF this inert_refl] k
    show ?thesis by (simp add: movePhase_def)
  qed
  then show ?thesis by (simp add: grounded_def)
qed

lemma grounded_eatPellet:
  assumes "grounded ps s"
  shows "grounded ps (eatPellet j i s)"
proof (cases "eatPellet j i s = s")
  case True
  with assms show ?thesis by simp
next
  case False
  then have near: "Constants_dist (x (heap s j)) (y (heap s j)) (px (pellets s ! i))
      (py (pellets s ! i)) < radius (heap s j)"
    and h: "heap (eatPellet j i s) = (heap s)(j := consumePellet (heap s j))"
    by (auto simp: eatPellet_def Math_random_def Let_def split: if_splits)
  from near dist_off_map [of "x (heap s j)" "y (heap s j)"] have on: "\<not> off_map (heap s j)"
    by (auto simp: off_map_def)
  have "radius (heap (eatPellet j i s) k) = NaN \<longrightarrow> off_map (heap (eatPellet j i s) k)"
    if k: "k \<in> set ps" for k
  proof (cases "k = j")
    case True
    from assms k True on have "radius (heap s j) \<noteq> NaN" by (auto simp: grounded_def)
    from grown_not_NaN [OF this, of PELLET_RADIUS]
    have "radius (consumePellet (heap s j)) \<noteq> NaN"
      by (simp add: consumePellet_def Let_def PELLET_RADIUS_def)
    with True show ?thesis by (simp add: h)
  next
    case False
    with assms k show ?thesis by (simp add: h grounded_def)
  qed
  then show ?thesis by (simp add: grounded_def)
qed

lemma grounded_pelletPhase: "grounded ps s \<Longrightarrow> grounded ps (pelletPhase s)"
proof -
  have 1: "grounded ps s \<Longrightarrow> grounded ps (fold (eatPellet j) is s)" for j "is" s
    by (induction "is" arbitrary: s) (simp_all add: grounded_eatPellet)
  have 2: "grounded ps s \<Longrightarrow> grounded ps (fold pelletLoop ks s)" for ks s
    by (induction ks arbitrary: s) (simp_all add: pelletLoop_def 1)
  show "grounded ps s \<Longrightarrow> grounded ps (pelletPhase s)"
    by (simp add: pelletPhase_def 2)
qed

lemma grounded_collisions: "grounded (players s) (pelletPhase (movePhase s))"
  using grounded_pelletPhase [OF grounded_movePhase] .

text \<open>
  C4, as it holds of the code. In every tick each player is eaten at most once, however
  many eaters overlap it: \<open>eatenPlayers\<close> has no duplicates, holds only players of the
  Map, and the highscore collection, when it is defined, receives one final score for
  each of its entries. Of two distinct players of the Map that have, as the
  player-vs-player pass starts, the same finite radius \<open>r\<close> and a distance below \<open>0.9 r\<close>,
  at least one is eaten in the tick, whatever other players the Map holds. When these
  two are the only players and \<open>r \<ge> 10\<close>, exactly one of them is eaten: the second in
  the order of the Map.
\<close>

theorem C4_eliminated_once:
  "distinct (snd (collided s)) \<and> set (snd (collided s)) \<subseteq> set (players s) \<and>
   length (submitted (tick s)) =
     length (submitted s) + (if highscoreCollection s then length (snd (collided s)) else 0) \<and>
   (\<forall>a b r. a \<in> set (players s) \<and> b \<in> set (players s) \<and> a \<noteq> b \<and>
      radius (heap (pelletPhase (movePhase s)) a) = Fin r \<and>
      radius (heap (pelletPhase (movePhase s)) b) = Fin r \<and>
      Constants_dist (x (heap (pelletPhase (movePhase s)) a)) (y (heap (pelletPhase (movePhase s)) a))
           (x (heap (pelletPhase (movePhase s)) b)) (y (heap (pelletPhase (movePhase s)) b))
        < Fin r * Fin (9 / 10)
      \<longrightarrow> a \<in> set (snd (collided s)) \<or> b \<in> set (snd (collided s))) \<and>
   (\<forall>a b r. players s = [a, b] \<and> a \<noteq> b \<and>
      radius (heap (pelletPhase (movePhase s)) a) = Fin r \<and>
      radius (heap (pelletPhase (movePhase s)) b) = Fin r \<and> 10 \<le> r \<and>
      Constants_dist (x (heap (pelletPhase (movePhase s)) a)) (y (heap (pelletPhase (movePhase s)) a))
           (x (heap (pelletPhase (movePhase s)) b)) (y (heap (pelletPhase (movePhase s)) b))
        < Fin r * Fin (9 / 10)
      \<longrightarrow> snd (collided s) = [b])"
proof -
  let ?s2 = "pelletPhase (movePhase s)"
  have 1: "distinct (snd (collided s))"
    by (simp add: collided_def distinct_playerPhase)
  have 2: "set (snd (collided s)) \<subseteq> set (players s)"
    using set_playerPhase [of ?s2] by (simp add: collided_def)
  have 3: "length (submitted (tick s)) =
     length (submitted s) + (if highscoreCollection s then length (snd (collided s)) else 0)"
    using counted_collided [of s] by (simp add: counted_def submitted_tick)
  have 4: "snd (collided s) = [b]"
    if "players s = [a, b] \<and> a \<noteq> b \<and>
      radius (heap ?s2 a) = Fin r \<and> radius (heap ?s2 b) = Fin r \<and> 10 \<le> r \<and>
      Constants_dist (x (heap ?s2 a)) (y (heap ?s2 a)) (x (heap ?s2 b)) (y (heap ?s2 b))
        < Fin r * Fin (9 / 10)" for a b r
  proof -
    from that have "players ?s2 = [a, b]" by simp
    from two_players [OF this, of r] that show ?thesis by (simp add: collided_def)
  qed
  have 5: "a \<in> set (snd (collided s)) \<or> b \<in> set (snd (collided s))"
    if h: "a \<in> set (players s) \<and> b \<in> set (players s) \<and> a \<noteq> b \<and>
      radius (heap ?s2 a) = Fin r \<and> radius (heap ?s2 b) = Fin r \<and>
      Constants_dist (x (heap ?s2 a)) (y (heap ?s2 a)) (x (heap ?s2 b)) (y (heap ?s2 b))
        < Fin r * Fin (9 / 10)" for a b r
  proof -
    have p: "players ?s2 = players s" by simp
    have "grounded (players ?s2) ?s2" unfolding p by (rule grounded_collisions)
    from one_of_pair_eaten [of a ?s2 b r, OF _ _ _ this] h p show ?thesis
      by (simp add: collided_def)
  qed
  from 1 2 3 4 5 show ?thesis by blast
qed

lemma movePhase_twins: "movePhase twins = twins"
  using movePlayer_twin [of 0 "''A''"] movePlayer_twin [of 3 "''B''"]
  by (simp add: movePhase_def moveStep_def twins_def duel_def fun_eq_iff twin_def)

lemma pelletPhase_twins: "pelletPhase twins = twins"
  by (simp add: pelletPhase_def pelletLoop_def twins_def duel_def)

lemma movePhase_trio: "movePhase trio = trio"
  using movePlayer_twin [of 12 "''D''"] movePlayer_twin [of 0 "''A''"] movePlayer_twin [of 3 "''B''"]
  by (simp add: movePhase_def moveStep_def trio_def melee_def fun_eq_iff twin_def)

lemma pelletPhase_trio: "pelletPhase trio = trio"
  by (simp add: pelletPhase_def pelletLoop_def trio_def melee_def)

lemma far_respawn: "\<not> sqrt 1598544 < 9" "\<not> sqrt 1620000 < sqrt 200 * 9 / 10"
  "\<not> sqrt 1620000 < 9" "\<not> sqrt 1598544 < sqrt 200 * 9 / 10"
proof -
  have a: "1200 < sqrt 1598544" "1200 < sqrt 1620000" by (rule real_less_rsqrt, simp)+
  have b: "sqrt 200 < 15" by (rule real_less_lsqrt) simp_all
  from a show "\<not> sqrt 1598544 < 9" "\<not> sqrt 1620000 < 9" by simp_all
  from a b show "\<not> sqrt 1620000 < sqrt 200 * 9 / 10" "\<not> sqrt 1598544 < sqrt 200 * 9 / 10"
    by simp_all
qed

lemma eaten_trio: "snd (playerPhase trio) = [3]"
  by (simp add: playerPhase_def eatLoop_def trio_def melee_def eatPlayer_def twin_def
      Constants_dist_def consumePlayer_def handlePlayerDeath_def getRandomSpawn_def
      Math_random_def Map_set_def constants_defs sqrt_200 far_respawn Let_def)


theorem C4_eliminated_once_witness:
  "players twins = [1, 2] \<and> (1::nat) \<noteq> 2 \<and>
   radius (heap (pelletPhase (movePhase twins)) 1) = Fin 10 \<and>
   radius (heap (pelletPhase (movePhase twins)) 2) = Fin 10 \<and> (10::real) \<le> 10 \<and>
   Constants_dist (x (heap (pelletPhase (movePhase twins)) 1)) (y (heap (pelletPhase (movePhase twins)) 1))
        (x (heap (pelletPhase (movePhase twins)) 2)) (y (heap (pelletPhase (movePhase twins)) 2))
     < Fin 10 * Fin (9 / 10) \<and>
   snd (collided twins) = [2] \<and>
   length (submitted (tick twins)) = 1 \<and>
   players trio = [1, 2, 3] \<and>
   radius (heap (pelletPhase (movePhase trio)) 2) = Fin 10 \<and>
   radius (heap (pelletPhase (movePhase trio)) 3) = Fin 10 \<and>
   Constants_dist (x (heap (pelletPhase (movePhase trio)) 2)) (y (heap (pelletPhase (movePhase trio)) 2))
        (x (heap (pelletPhase (movePhase trio)) 3)) (y (heap (pelletPhase (movePhase trio)) 3))
     < Fin 10 * Fin (9 / 10) \<and>
   (2 \<in> set (snd (collided trio)) \<or> 3 \<in> set (snd (collided trio))) \<and>
   snd (collided trio) = [3]"
proof -
  have m: "pelletPhase (movePhase twins) = twins"
    by (simp add: movePhase_twins pelletPhase_twins)
  have p: "players twins = [1, 2]" by (simp add: twins_def duel_def)
  have r: "radius (heap twins 1) = Fin 10" "radius (heap twins 2) = Fin 10"
    by (simp_all add: twins_def twin_def)
  have d: "Constants_dist (x (heap twins 1)) (y (heap twins 1)) (x (heap twins 2)) (y (heap twins 2))
            < Fin 10 * Fin (9 / 10)"
    by (simp add: twins_def twin_def Constants_dist_def hypot_axis del: Math_hypot.simps)
  have h: "highscoreCollection twins" "submitted twins = []"
    by (simp_all add: twins_def duel_def)
  have m': "pelletPhase (movePhase trio) = trio"
    by (simp add: movePhase_trio pelletPhase_trio)
  have p': "players trio = [1, 2, 3]" by (simp add: trio_def melee_def)
  have r': "radius (heap trio 1) = Fin 10" "radius (heap trio 2) = Fin 10"
    "radius (heap trio 3) = Fin 10"
    by (simp_all add: trio_def melee_def twin_def)
  have d': "Constants_dist (x (heap trio 2)) (y (heap trio 2)) (x (heap trio 3)) (y (heap trio 3))
            < Fin 10 * Fin (9 / 10)"
    by (simp add: trio_def melee_def twin_def Constants_dist_def hypot_axis del: Math_hypot.simps)
  have e': "snd (collided trio) = [3]"
    by (simp add: collided_def m' eaten_trio)
  note t = C4_eliminated_once [of twins]
  note t' = C4_eliminated_once [of trio]
  from t p r d have e: "snd (collided twins) = [2]"
    by (simp add: m)
  from t h e have l: "length (submitted (tick twins)) = 1" by simp
  from t' p' r' d' have o: "2 \<in> set (snd (collided trio)) \<or> 3 \<in> set (snd (collided trio))"
    by (simp add: m')
  from p r d e l p' r' d' o e' show ?thesis by (simp add: m m')
qed

section \<open>Growth in binary64 arithmetic\<close>

lemma nearest_even_err: "\<bar>of_int (nearest_even t) - t\<bar> \<le> 1 / 2"
proof -
  have "of_int \<lfloor>t\<rfloor> \<le> t" "t < of_int \<lfloor>t\<rfloor> + 1" by linarith+
  then show ?thesis by (auto simp: nearest_even_def Let_def)
qed

lemma nearest_even_ge: "of_int m \<le> t \<Longrightarrow> m \<le> nearest_even t"
proof -
  assume "of_int m \<le> t"
  then have "m \<le> \<lfloor>t\<rfloor>" by (simp add: le_floor_iff)
  then show ?thesis by (auto simp: nearest_even_def Let_def)
qed

lemma nearest_even_eq: "\<bar>t - of_int m\<bar> < 1 / 2 \<Longrightarrow> nearest_even t = m"
proof -
  assume a: "\<bar>t - of_int m\<bar> < 1 / 2"
  have f: "of_int \<lfloor>t\<rfloor> \<le> t" "t < of_int \<lfloor>t\<rfloor> + 1" by linarith+
  consider "\<lfloor>t\<rfloor> = m" | "\<lfloor>t\<rfloor> = m - 1" using a f by (cases "\<lfloor>t\<rfloor> = m") linarith+
  then show ?thesis
  proof cases
    case 1
    with a f show ?thesis by (auto simp: nearest_even_def Let_def)
  next
    case 2
    with a f show ?thesis by (auto simp: nearest_even_def Let_def)
  qed
qed

lemma nearest_even_tie:
  "t = of_int m + 1 / 2 \<Longrightarrow> nearest_even t = (if even m then m else m + 1)"
proof -
  assume a: "t = of_int m + 1 / 2"
  then have "\<lfloor>t\<rfloor> = m" by (intro floor_unique) simp_all
  with a show ?thesis by (simp add: nearest_even_def Let_def)
qed

lemma exponent_normal:
  assumes "1 \<le> v"
  shows "0 \<le> \<lfloor>log 2 v\<rfloor>" "exponent v = \<lfloor>log 2 v\<rfloor>" "2 ^ nat \<lfloor>log 2 v\<rfloor> \<le> v"
    "v < 2 * 2 ^ nat \<lfloor>log 2 v\<rfloor>"
proof -
  from assms have "0 \<le> log 2 v" by simp
  then show 0: "0 \<le> \<lfloor>log 2 v\<rfloor>" by simp
  from assms have a: "\<bar>v\<bar> = v" by simp
  from 0 have "- 1022 \<le> \<lfloor>log 2 v\<rfloor>" by linarith
  then show "exponent v = \<lfloor>log 2 v\<rfloor>"
    unfolding exponent_def a by (rule max_absorb1)
  from assms have "0 < v" by simp
  from floor_log_eq_powr_iff [OF this, of 2 "\<lfloor>log 2 v\<rfloor>"]
  have "2 powr real_of_int \<lfloor>log 2 v\<rfloor> \<le> v" "v < 2 powr real_of_int (\<lfloor>log 2 v\<rfloor> + 1)"
    by simp_all
  moreover from 0 have "2 powr real_of_int \<lfloor>log 2 v\<rfloor> = 2 ^ nat \<lfloor>log 2 v\<rfloor>"
    by (simp add: powr_int)
  moreover have "2 powr real_of_int (\<lfloor>log 2 v\<rfloor> + 1) = 2 * 2 powr real_of_int \<lfloor>log 2 v\<rfloor>"
    by (simp add: powr_add)
  ultimately show "2 ^ nat \<lfloor>log 2 v\<rfloor> \<le> v" "v < 2 * 2 ^ nat \<lfloor>log 2 v\<rfloor>"
    by simp_all
qed

lemma exponent_at:
  assumes "2 ^ n \<le> v" "v < 2 * 2 ^ n"
  shows "exponent v = int n"
proof -
  have "(1::real) \<le> 2 ^ n" by simp
  with assms have 1: "0 < v" by linarith
  have "2 powr real n = 2 ^ n" "2 powr (real n + 1) = 2 * 2 ^ n"
    by (simp_all add: powr_realpow powr_add)
  then have "\<lfloor>log 2 v\<rfloor> = int n"
    using floor_log_eq_powr_iff [OF 1, of 2 "int n"] assms by simp
  moreover from 1 have "\<bar>v\<bar> = v" by simp
  ultimately show ?thesis by (simp add: exponent_def)
qed


lemma ulp_at:
  assumes "2 ^ n \<le> v" "v < 2 * 2 ^ n"
  shows "ulp v = 2 ^ n / 2 ^ 52"
proof -
  have "ulp v = 2 powi (int n - 52)"
    by (simp add: ulp_def exponent_at [OF assms])
  also have "\<dots> = 2 powi (int n) / 2 powi 52"
    by (rule power_int_diff) simp
  finally show ?thesis by simp
qed

lemma binary64_at:
  assumes "2 ^ n \<le> v" "v < 2 * 2 ^ n"
  shows "binary64 v = of_int (nearest_even (v * 2 ^ 52 / 2 ^ n)) * 2 ^ n / 2 ^ 52"
proof -
  have "(1::real) \<le> 2 ^ n" by simp
  with assms have "v \<noteq> 0" by linarith
  then show ?thesis by (simp add: binary64_def ulp_at [OF assms])
qed

lemma binary64_normal:
  assumes "1 \<le> v"
  shows "\<bar>binary64 v - v\<bar> \<le> v / 2 ^ 53" "1 \<le> binary64 v"
proof -
  define n where "n = nat \<lfloor>log 2 v\<rfloor>"
  define p :: real where "p = 2 ^ n / 2 ^ 52"
  define t where "t = v / p"
  have b: "2 ^ n \<le> v" "v < 2 * 2 ^ n"
    using exponent_normal [OF assms] by (simp_all add: n_def)
  have p: "0 < p" by (simp add: p_def)
  have v: "v = t * p" using p by (simp add: t_def)
  have e: "binary64 v = of_int (nearest_even t) * p"
    using binary64_at [OF b] by (simp add: t_def p_def)
  have "binary64 v - v = (of_int (nearest_even t) - t) * p"
    by (subst e, subst v) (simp add: left_diff_distrib)
  then have "\<bar>binary64 v - v\<bar> = \<bar>of_int (nearest_even t) - t\<bar> * p"
    using p by (simp add: abs_mult)
  also have "\<dots> \<le> 1 / 2 * p"
    using nearest_even_err [of t] p by (intro mult_right_mono) simp_all
  also have "\<dots> = 2 ^ n / 2 ^ 53" by (simp add: p_def)
  also have "\<dots> \<le> v / 2 ^ 53" using b by (simp add: divide_right_mono)
  finally show "\<bar>binary64 v - v\<bar> \<le> v / 2 ^ 53" .
  have "of_int (2 ^ 52) * p \<le> t * p"
    using b p by (simp add: v [symmetric]) (simp add: p_def)
  with p have "of_int (2 ^ 52) \<le> t" by simp
  then have "2 ^ 52 \<le> nearest_even t" by (rule nearest_even_ge)
  then have "(2 ^ 52 :: real) \<le> of_int (nearest_even t)"
    by (metis of_int_le_iff of_int_numeral of_int_power)
  then have "2 ^ 52 * p \<le> of_int (nearest_even t) * p"
    using p by (intro mult_right_mono) simp_all
  moreover have "2 ^ 52 * p = 2 ^ n" by (simp add: p_def)
  moreover have "(1::real) \<le> 2 ^ n" by simp
  ultimately have "1 \<le> of_int (nearest_even t) * p" by linarith
  then show "1 \<le> binary64 v" by (simp add: e)
qed

lemma epsilon_range: "0 \<le> epsilon" "epsilon \<le> 1" "0 \<le> 1 - epsilon" "0 \<le> 1 + epsilon"
  "1 - epsilon \<le> 1" "1 \<le> 1 + epsilon"
  by (simp_all add: epsilon_def)

lemma near_round: "1 \<le> v \<Longrightarrow> near 1 (binary64 v) v"
proof -
  assume "1 \<le> v"
  from binary64_normal(1) [OF this]
  have "binary64 v - v \<le> v / 2 ^ 53" "v - binary64 v \<le> v / 2 ^ 53" by linarith+
  then show ?thesis by (simp add: near_def epsilon_def algebra_simps)
qed

lemma near_mono: "0 \<le> w \<Longrightarrow> j \<le> k \<Longrightarrow> near j v w \<Longrightarrow> near k v w"
proof -
  assume a: "0 \<le> w" "j \<le> k" "near j v w"
  have "(1 - epsilon) ^ k \<le> (1 - epsilon) ^ j"
    using a(2) epsilon_range by (intro power_decreasing)
  then have 1: "w * (1 - epsilon) ^ k \<le> w * (1 - epsilon) ^ j"
    using a(1) by (rule mult_left_mono)
  have "(1 + epsilon) ^ j \<le> (1 + epsilon) ^ k"
    using a(2) epsilon_range by (intro power_increasing)
  then have 2: "w * (1 + epsilon) ^ j \<le> w * (1 + epsilon) ^ k"
    using a(1) by (rule mult_left_mono)
  from a(3) 1 2 show ?thesis unfolding near_def by linarith
qed

lemma near_add: "near k v w \<Longrightarrow> near k v' w' \<Longrightarrow> near k (v + v') (w + w')"
  by (simp add: near_def distrib_right)

lemma near_trans: "near j v w \<Longrightarrow> near k w z \<Longrightarrow> near (k + j) v z"
proof -
  assume a: "near j v w" "near k w z"
  have p: "0 \<le> (1 - epsilon) ^ j" "0 \<le> (1 + epsilon) ^ j"
    using epsilon_range by simp_all
  from a(2) have "z * (1 - epsilon) ^ k \<le> w" "w \<le> z * (1 + epsilon) ^ k"
    by (simp_all add: near_def)
  then have "z * (1 - epsilon) ^ k * (1 - epsilon) ^ j \<le> w * (1 - epsilon) ^ j"
    "w * (1 + epsilon) ^ j \<le> z * (1 + epsilon) ^ k * (1 + epsilon) ^ j"
    using p by (simp_all add: mult_right_mono)
  then show ?thesis
    using a(1) unfolding near_def power_add mult.assoc [symmetric] by linarith
qed

lemma near_refl: "near 0 v v"
  by (simp add: near_def)

lemma near_sqrt:
  assumes "0 \<le> N" "0 \<le> v" "near 1 v (sqrt N)"
  shows "near 2 (v * v) N"
proof -
  define c where "c = sqrt N"
  from assms(1) have s: "0 \<le> c" "c * c = N" by (simp_all add: c_def)
  from assms(3) have b: "c * (1 - epsilon) \<le> v" "v \<le> c * (1 + epsilon)"
    by (simp_all add: near_def c_def)
  have l: "0 \<le> c * (1 - epsilon)" using s(1) epsilon_range by simp
  have 1: "(c * (1 - epsilon)) * (c * (1 - epsilon)) \<le> v * v"
    using b(1) b(1) assms(2) l by (rule mult_mono)
  have u: "0 \<le> c * (1 + epsilon)" using s(1) epsilon_range by simp
  have 2: "v * v \<le> (c * (1 + epsilon)) * (c * (1 + epsilon))"
    using b(2) b(2) u assms(2) by (rule mult_mono)
  have "(c * d) * (c * d) = N * d ^ 2" for d :: real
    using s(2) by (simp add: power2_eq_square mult.assoc mult.left_commute)
  with 1 2 show ?thesis by (simp add: near_def)
qed

lemma fl_normal:
  assumes "1 \<le> v"
  shows "fl (Fin v) = PInf \<or> (\<exists>w. fl (Fin v) = Fin w \<and> 1 \<le> w \<and> near 1 w v)"
  using binary64_normal(2) [OF assms] near_round [OF assms]
  by (auto simp: Let_def)

declare fl.simps(1) [simp del]

lemma overflow_sum:
  "\<not> isFinite (fl (Math_sqrt (fl (PInf + w))))" "\<not> isFinite (fl (Math_sqrt (fl (w + PInf))))"
  by (cases w; simp)+

lemma grow_core:
  assumes "1 \<le> r" "1 \<le> a"
    and "isFinite (fl (Math_sqrt (fl (fl (Fin (r * r)) + fl (Fin a)))))"
  shows "\<exists>N r'. fl (fl (Fin (r * r)) + fl (Fin a)) = Fin N \<and>
           fl (Math_sqrt (fl (fl (Fin (r * r)) + fl (Fin a)))) = Fin r' \<and>
           1 \<le> r' \<and> near 2 N (r * r + a) \<and> near 2 (r' * r') N"
proof -
  have rr: "1 \<le> r * r" using mult_mono [of 1 r 1 r] assms(1) by simp
  from fl_normal [OF rr] assms(3) overflow_sum(1) [of "fl (Fin a)"] obtain A
    where A: "fl (Fin (r * r)) = Fin A" "1 \<le> A" "near 1 A (r * r)"
    by auto
  from fl_normal [OF assms(2)] assms(3) overflow_sum(2) [of "Fin A"] obtain a'
    where a': "fl (Fin a) = Fin a'" "1 \<le> a'" "near 1 a' a"
    by (auto simp: A(1))
  have s: "fl (Fin (r * r)) + fl (Fin a) = Fin (A + a')" by (simp add: A a')
  from A(2) a'(2) have 1: "1 \<le> A + a'" by simp
  from fl_normal [OF 1] assms(3) obtain N
    where N: "fl (Fin (A + a')) = Fin N" "1 \<le> N" "near 1 N (A + a')"
    by (auto simp: s)
  from N(2) have q: "1 \<le> sqrt N" "Math_sqrt (Fin N) = Fin (sqrt N)" by simp_all
  from assms(3) have "isFinite (fl (Fin (sqrt N)))"
    by (simp only: s N(1) q(2))
  with fl_normal [OF q(1)] obtain r'
    where r': "fl (Fin (sqrt N)) = Fin r'" "1 \<le> r'" "near 1 r' (sqrt N)"
    by auto
  have "near 1 (A + a') (r * r + a)" using A(3) a'(3) by (rule near_add)
  from near_trans [OF N(3) this] have 2: "near 2 N (r * r + a)"
    by (simp add: numeral_2_eq_2)
  from N(2) r'(2) have "0 \<le> N" "0 \<le> r'" by simp_all
  from near_sqrt [OF this r'(3)] have 3: "near 2 (r' * r') N" .
  from s N(1) q(2) r'(1,2) 2 3 show ?thesis by simp
qed


lemma radius_consume_rd:
  "radius (consume_rd rd m q) =
     rd (Math_sqrt (rd (rd (radius q * radius q) + rd (area_of m))))"
  "score (consume_rd rd m q) = rd (rd (radius q * radius q) + rd (area_of m))"
  by (cases m; simp add: consumePellet_rd_def consumePlayer_rd_def Let_def)+

lemma edible_area: "edible m \<Longrightarrow> area_of m = Fin (nominal m) \<and> 1 \<le> nominal m"
proof (cases m)
  case Pellet
  then show ?thesis by (simp add: PELLET_RADIUS_def)
next
  case (Victim v)
  assume "edible m"
  with Victim obtain rb where "radius v = Fin rb" "1 \<le> rb"
    by (cases "radius v") simp_all
  with Victim mult_mono [of 1 rb 1 rb] show ?thesis by simp
qed

lemma consume_step:
  assumes "radius q = Fin r" "1 \<le> r" "edible m" "isFinite (radius (consume_rd fl m q))"
  shows "\<exists>r' S. radius (consume_rd fl m q) = Fin r' \<and> 1 \<le> r' \<and>
           score (consume_rd fl m q) = Fin S \<and>
           near 2 S (r * r + nominal m) \<and> near 2 (r' * r') S"
proof -
  from edible_area [OF assms(3)] have a: "area_of m = Fin (nominal m)" "1 \<le> nominal m"
    by simp_all
  from assms(4) have "isFinite (fl (Math_sqrt (fl (fl (Fin (r * r)) + fl (Fin (nominal m))))))"
    by (simp add: radius_consume_rd assms(1) a(1))
  from grow_core [OF assms(2) a(2) this] show ?thesis
    by (simp add: radius_consume_rd assms(1) a(1)) blast
qed

lemma finite_back: "isFinite (radius (consume_rd fl m q)) \<Longrightarrow> isFinite (radius q)"
  using overflow_sum(1) [of "fl (area_of m)"]
  by (cases "radius q") (simp_all add: radius_consume_rd)

lemma fold_finite_back:
  "isFinite (radius (fold (consume_rd fl) ms q)) \<Longrightarrow> isFinite (radius q)"
proof (induction ms arbitrary: q)
  case Nil
  then show ?case by simp
next
  case (Cons m ms)
  from Cons.IH [of "consume_rd fl m q"] Cons.prems show ?case
    by (simp add: finite_back)
qed

lemma grow_bound:
  "radius p = Fin r \<Longrightarrow> 1 \<le> r \<Longrightarrow> 0 \<le> T \<Longrightarrow> near k (r * r) T \<Longrightarrow>
   \<forall>m \<in> set ms. edible m \<Longrightarrow> isFinite (radius (fold (consume_rd fl) ms p)) \<Longrightarrow>
   \<exists>r'. radius (fold (consume_rd fl) ms p) = Fin r' \<and> 1 \<le> r' \<and>
     near (k + 4 * length ms) (r' * r') (T + sum_list (map nominal ms)) \<and>
     (ms \<noteq> [] \<longrightarrow>
       (\<exists>S. score (fold (consume_rd fl) ms p) = Fin S \<and>
            near (k + 4 * length ms) S (T + sum_list (map nominal ms))))"
proof (induction ms arbitrary: p r k T)
  case Nil
  then show ?case by simp
next
  case (Cons m ms)
  let ?q = "consume_rd fl m p"
  from Cons.prems(5) have e: "edible m" "\<forall>m \<in> set ms. edible m" by simp_all
  from Cons.prems(6) have f: "isFinite (radius (fold (consume_rd fl) ms ?q))" by simp
  from fold_finite_back [OF f] have "isFinite (radius ?q)" .
  from consume_step [OF Cons.prems(1,2) e(1) this] obtain r1 S1
    where 1: "radius ?q = Fin r1" "1 \<le> r1" "score ?q = Fin S1"
      "near 2 S1 (r * r + nominal m)" "near 2 (r1 * r1) S1"
    by blast
  from edible_area [OF e(1)] have a: "0 \<le> nominal m" by simp
  with Cons.prems(3) have T: "0 \<le> T + nominal m" by simp
  have "near k (nominal m) (nominal m)"
    using near_mono [OF a _ near_refl, of k] by simp
  with Cons.prems(4) have "near k (r * r + nominal m) (T + nominal m)" by (rule near_add)
  from near_trans [OF 1(4) this] have 2: "near (k + 2) S1 (T + nominal m)" .
  have "k + 2 + 2 = k + 4" by simp
  with near_trans [OF 1(5) 2] have 3: "near (k + 4) (r1 * r1) (T + nominal m)"
    by (simp only:)
  from Cons.IH [OF 1(1,2) T 3 e(2) f] obtain r'
    where 4: "radius (fold (consume_rd fl) ms ?q) = Fin r'" "1 \<le> r'"
      "near (k + 4 + 4 * length ms) (r' * r') (T + nominal m + sum_list (map nominal ms))"
      "ms \<noteq> [] \<longrightarrow> (\<exists>S. score (fold (consume_rd fl) ms ?q) = Fin S \<and>
          near (k + 4 + 4 * length ms) S (T + nominal m + sum_list (map nominal ms)))"
    by blast
  have 5: "\<exists>S. score (fold (consume_rd fl) ms ?q) = Fin S \<and>
          near (k + 4 + 4 * length ms) S (T + nominal m + sum_list (map nominal ms))"
  proof (cases "ms = []")
    case True
    from near_mono [OF T _ 2, of "k + 4"] have "near (k + 4) S1 (T + nominal m)" by simp
    with True 1(3) show ?thesis by simp
  next
    case False
    with 4(4) show ?thesis by simp
  qed
  from 4(1,2,3) 5 show ?case by (simp add: add.assoc add.left_commute)
qed


text \<open>The value of a rounding, from the binade of the argument and the nearest integer.\<close>

lemma fl_eq:
  assumes "2 ^ n \<le> v" "v < 2 * 2 ^ n" "\<bar>v * 2 ^ 52 / 2 ^ n - of_int m\<bar> < 1 / 2"
    "w = of_int m * 2 ^ n / 2 ^ 52" "\<bar>w\<bar> < 2 ^ 1024"
  shows "fl (Fin v) = Fin w"
proof -
  have "nearest_even (v * 2 ^ 52 / 2 ^ n) = m"
    using assms(3) by (rule nearest_even_eq)
  then have "binary64 v = w"
    by (simp only: binary64_at [OF assms(1,2)] assms(4))
  with assms(5) show ?thesis by (simp add: fl.simps Let_def)
qed

lemma fl_tie_odd:
  assumes "2 ^ n \<le> v" "v < 2 * 2 ^ n" "v * 2 ^ 52 / 2 ^ n = of_int m + 1 / 2" "odd m"
    "w = of_int (m + 1) * 2 ^ n / 2 ^ 52" "\<bar>w\<bar> < 2 ^ 1024"
  shows "fl (Fin v) = Fin w"
proof -
  have "nearest_even (v * 2 ^ 52 / 2 ^ n) = m + 1"
    using assms(4) by (simp only: nearest_even_tie [OF assms(3)] if_False)
  then have "binary64 v = w"
    by (simp only: binary64_at [OF assms(1,2)] assms(5))
  with assms(6) show ?thesis by (simp add: fl.simps Let_def)
qed

lemma fl_sqrt:
  assumes "(2 ^ n)\<^sup>2 \<le> v" "v < (2 * 2 ^ n)\<^sup>2"
    "(of_int m - 1 / 2)\<^sup>2 < v * (2 ^ 52 / 2 ^ n)\<^sup>2"
    "v * (2 ^ 52 / 2 ^ n)\<^sup>2 < (of_int m + 1 / 2)\<^sup>2" "0 \<le> m"
    "w = of_int m * 2 ^ n / 2 ^ 52" "\<bar>w\<bar> < 2 ^ 1024"
  shows "fl (Math_sqrt (Fin v)) = Fin w"
proof -
  have "(0::real) \<le> (2 ^ n)\<^sup>2" by simp
  with assms(1) have v: "0 \<le> v" by linarith
  have 1: "2 ^ n \<le> sqrt v" using assms(1) by (rule real_le_rsqrt)
  have 2: "sqrt v < 2 * 2 ^ n" using assms(2) by (intro real_less_lsqrt) simp_all
  define c :: real where "c = 2 ^ 52 / 2 ^ n"
  have c: "0 < c" by (simp add: c_def)
  have e: "sqrt (v * c\<^sup>2) = sqrt v * c" using c by (simp add: real_sqrt_mult)
  have "of_int m - 1 / 2 < sqrt (v * c\<^sup>2)"
    using assms(3) unfolding c_def by (rule real_less_rsqrt)
  moreover have "sqrt (v * c\<^sup>2) < of_int m + 1 / 2"
    using assms(4,5) unfolding c_def by (intro real_less_lsqrt) simp_all
  ultimately have "\<bar>sqrt v * c - of_int m\<bar> < 1 / 2" unfolding e by linarith
  then have 3: "\<bar>sqrt v * 2 ^ 52 / 2 ^ n - of_int m\<bar> < 1 / 2" by (simp add: c_def)
  from v have "Math_sqrt (Fin v) = Fin (sqrt v)" by simp
  then show ?thesis by (simp only: fl_eq [OF 1 2 3 assms(6,7)])
qed

lemma consume_value:
  assumes "radius q = Fin r" "area_of m = Fin a"
    "fl (Fin (r * r)) = Fin A" "fl (Fin a) = Fin a'" "fl (Fin (A + a')) = Fin N"
    "fl (Math_sqrt (Fin N)) = Fin r'"
  shows "radius (consume_rd fl m q) = Fin r'" "score (consume_rd fl m q) = Fin N"
  by (simp_all add: radius_consume_rd assms del: Math_sqrt.simps)

lemma fl_100: "fl (Fin (10 * 10)) = Fin 100" "fl (Fin 100) = Fin 100"
  by (rule fl_eq [where n = 6 and m = 7036874417766400]; simp)+

lemma fl_16: "fl (Fin 16) = Fin 16"
  by (rule fl_eq [where n = 4 and m = 4503599627370496]) simp_all

lemma fl_200: "fl (Fin (100 + 100)) = Fin 200"
  by (rule fl_eq [where n = 7 and m = 7036874417766400]) simp_all

lemma fl_116: "fl (Fin (100 + 16)) = Fin 116"
  by (rule fl_eq [where n = 6 and m = 8162774324609024]) simp_all

lemma fl_sqrt_200: "fl (Math_sqrt (Fin 200)) = Fin (7961314590657216 / 2 ^ 49)"
  by (rule fl_sqrt [where n = 3 and m = 7961314590657216]) (simp_all add: power2_eq_square)

lemma fl_sqrt_116: "fl (Math_sqrt (Fin 116)) = Fin (6063156554684915 / 2 ^ 49)"
  by (rule fl_sqrt [where n = 3 and m = 6063156554684915]) (simp_all add: power2_eq_square)

lemma fl_square_200:
  "fl (Fin (7961314590657216 / 2 ^ 49 * (7961314590657216 / 2 ^ 49))) = Fin (200 + 1 / 2 ^ 45)"
  by (rule fl_eq [where n = 7 and m = 7036874417766401]) simp_all

lemma fl_square_116:
  "fl (Fin (6063156554684915 / 2 ^ 49 * (6063156554684915 / 2 ^ 49))) = Fin (116 - 1 / 2 ^ 46)"
  by (rule fl_eq [where n = 6 and m = 8162774324609023]) simp_all

lemma fl_216_up: "fl (Fin (200 + 1 / 2 ^ 45 + 16)) = Fin (216 + 1 / 2 ^ 45)"
  by (rule fl_eq [where n = 7 and m = 7599824371187713]) simp_all

lemma fl_216_tie: "fl (Fin (116 - 1 / 2 ^ 46 + 100)) = Fin 216"
  by (rule fl_tie_odd [where n = 7 and m = 7599824371187711]) simp_all

lemma fl_sqrt_216: "fl (Math_sqrt (Fin 216)) = Fin (8273640819634630 / 2 ^ 49)"
  by (rule fl_sqrt [where n = 3 and m = 8273640819634630]) (simp_all add: power2_eq_square)

lemma fl_sqrt_216_up:
  "fl (Math_sqrt (Fin (216 + 1 / 2 ^ 45))) = Fin (8273640819634630 / 2 ^ 49)"
  by (rule fl_sqrt [where n = 3 and m = 8273640819634630]) (simp_all add: power2_eq_square)


lemma exact_total:
  "radius p = Fin r \<Longrightarrow> \<forall>m \<in> set ms. edible m \<Longrightarrow>
   radius p * radius p + sum_list (map area_of ms) = Fin (r * r + sum_list (map nominal ms))"
proof (induction ms)
  case Nil
  then show ?case by (simp add: zero_num_def)
next
  case (Cons m ms)
  from Cons.prems edible_area [of m] have "area_of m = Fin (nominal m)" by simp
  moreover from Cons have "Fin r * Fin r + sum_list (map area_of ms)
      = Fin (r * r + sum_list (map nominal ms))" by simp
  ultimately show ?case
    using Cons.prems(1) by (simp add: add.left_commute [of "Fin r * Fin r"] del: times_num.simps)
qed

lemma exact_score:
  "ms \<noteq> [] \<Longrightarrow> score (fold consume ms p) = radius p * radius p + sum_list (map area_of ms)"
proof (cases ms)
  case Nil
  assume "ms \<noteq> []"
  with Nil show ?thesis by simp
next
  case (Cons m ms')
  have "score (consume m p) = radius (consume m p) * radius (consume m p)"
    by (simp add: consume_area)
  from fold_consume [OF this, of ms'] Cons show ?thesis
    by (simp add: consume_area) (simp add: consume_eq add.assoc)
qed

lemma sum_areas_mset:
  "mset ms' = mset ms \<Longrightarrow> sum_list (map area_of ms') = sum_list (map area_of ms)"
proof -
  assume "mset ms' = mset ms"
  then have "mset (map area_of ms') = mset (map area_of ms)" by simp
  then show ?thesis
    using sum_mset_sum_list [of "map area_of ms'"] sum_mset_sum_list [of "map area_of ms"]
    by simp
qed

lemma consume_rd_exact: "consume_rd (\<lambda>v. v) m q = consume m q"
  by (cases m) (simp_all add: consumePellet_rd_def consumePlayer_rd_def consumePellet_def
      consumePlayer_def)

lemma heap_eatPellet:
  "heap (eatPellet k i s) k =
     (if Constants_dist (x (heap s k)) (y (heap s k)) (px (pellets s ! i)) (py (pellets s ! i))
           < radius (heap s k)
      then consume Pellet (heap s k) else heap s k)"
  by (simp add: eatPellet_def Math_random_def Let_def)

lemma heap_eatPlayer:
  "heap (fst (eatPlayer a b (s, e))) a =
     (if a \<noteq> b \<and> \<not> radius (heap s a) < radius (heap s b) \<and>
         Constants_dist (x (heap s a)) (y (heap s a)) (x (heap s b)) (y (heap s b))
           < radius (heap s a) * Fin (9 / 10) \<and> b \<notin> set e
      then consume (Victim (heap s b)) (heap s a) else heap s a)"
  by (simp add: eatPlayer_def Let_def heap_handlePlayerDeath_other)

text \<open>
  C7, as it holds of the code. Growth is additive in area up to the rounding of the
  doubles. Take a player of finite radius \<open>r \<ge> 1\<close> and any sequence of pellets and of
  players of finite radius at least 1 that it consumes, none of the operations
  overflowing (the resulting radius is finite). The exact total
  \<open>T = r * r + \<close> the sum of the consumed areas is a finite number that does not depend
  on the order of the sequence. After \<open>n\<close> consumptions the square of the resulting
  radius and the resulting score lie between \<open>T * (1 - 2^-53)^(4 n)\<close> and
  \<open>T * (1 + 2^-53)^(4 n)\<close>: each consumption rounds four results, the square of the
  radius, the area added, the sum and the square root. Without rounding the score is
  \<open>T\<close> itself. The game loop grows a player by these blocks and nothing else:
  \<open>eatPellet\<close> applies the pellet block to the eater exactly when the pellet is within
  its radius, \<open>eatPlayer\<close> the player block exactly when the elimination test holds.
\<close>

theorem C7_area_additivity:
  assumes "radius p = Fin r" "1 \<le> r" "\<forall>m \<in> set ms. edible m"
    and "isFinite (radius (fold (consume_rd fl) ms p))"
  shows "radius p * radius p + sum_list (map area_of ms) = Fin (r * r + sum_list (map nominal ms)) \<and>
         near (4 * length ms)
           (real_of (radius (fold (consume_rd fl) ms p)) * real_of (radius (fold (consume_rd fl) ms p)))
           (r * r + sum_list (map nominal ms)) \<and>
         (ms \<noteq> [] \<longrightarrow>
            isFinite (score (fold (consume_rd fl) ms p)) \<and>
            near (4 * length ms) (real_of (score (fold (consume_rd fl) ms p)))
              (r * r + sum_list (map nominal ms)) \<and>
            score (fold (consume_rd (\<lambda>v. v)) ms p) = Fin (r * r + sum_list (map nominal ms))) \<and>
         (\<forall>ms'. mset ms' = mset ms \<longrightarrow>
            radius p * radius p + sum_list (map area_of ms')
              = Fin (r * r + sum_list (map nominal ms))) \<and>
         (\<forall>m q. consume_rd (\<lambda>v. v) m q = consume m q) \<and>
         heap (eatPellet k i s) k =
           (if Constants_dist (x (heap s k)) (y (heap s k)) (px (pellets s ! i))
                 (py (pellets s ! i)) < radius (heap s k)
            then consume Pellet (heap s k) else heap s k) \<and>
         heap (fst (eatPlayer a b (s, e))) a =
           (if a \<noteq> b \<and> \<not> radius (heap s a) < radius (heap s b) \<and>
               Constants_dist (x (heap s a)) (y (heap s a)) (x (heap s b)) (y (heap s b))
                 < radius (heap s a) * Fin (9 / 10) \<and> b \<notin> set e
            then consume (Victim (heap s b)) (heap s a) else heap s a)"
proof -
  define T where "T = r * r + sum_list (map nominal ms)"
  define G where "G = fold (consume_rd fl) ms p"
  have t: "radius p * radius p + sum_list (map area_of ms) = Fin T"
    unfolding T_def using assms(1,3) by (rule exact_total)
  have 0: "0 \<le> r * r" by simp
  from grow_bound [OF assms(1,2) 0 near_refl assms(3,4)] obtain r'
    where "radius (fold (consume_rd fl) ms p) = Fin r'"
      "near (0 + 4 * length ms) (r' * r') (r * r + sum_list (map nominal ms))"
      "ms \<noteq> [] \<longrightarrow> (\<exists>S. score (fold (consume_rd fl) ms p) = Fin S \<and>
          near (0 + 4 * length ms) S (r * r + sum_list (map nominal ms)))"
    by blast
  then have g: "radius G = Fin r'" "near (4 * length ms) (r' * r') T"
      "ms \<noteq> [] \<longrightarrow> (\<exists>S. score G = Fin S \<and> near (4 * length ms) S T)"
    by (simp_all only: add_0 T_def [symmetric] G_def [symmetric])
  from g(1,2) have g2: "near (4 * length ms) (real_of (radius G) * real_of (radius G)) T"
    by simp
  from g(3) have g3: "ms \<noteq> [] \<longrightarrow>
      isFinite (score G) \<and> near (4 * length ms) (real_of (score G)) T"
    by auto
  have c: "consume_rd (\<lambda>v. v) = consume"
    by (intro ext) (rule consume_rd_exact)
  have x: "ms \<noteq> [] \<longrightarrow> score (fold (consume_rd (\<lambda>v. v)) ms p) = Fin T"
    using exact_score [of ms p] t by (simp add: c)
  have m: "\<forall>ms'. mset ms' = mset ms \<longrightarrow>
              radius p * radius p + sum_list (map area_of ms') = Fin T"
  proof (intro allI impI)
    fix ms' :: "meal list"
    assume "mset ms' = mset ms"
    from sum_areas_mset [OF this] t
    show "radius p * radius p + sum_list (map area_of ms') = Fin T" by simp
  qed
  have l: "\<forall>m q. consume_rd (\<lambda>v. v) m q = consume m q"
    by (simp add: consume_rd_exact)
  show ?thesis
    unfolding T_def [symmetric] G_def [symmetric]
    apply (intro conjI)
    subgoal by (rule t)
    subgoal by (rule g2)
    subgoal using g3 x by blast
    subgoal by (rule m)
    subgoal by (rule l)
    subgoal by (rule heap_eatPellet)
    subgoal by (rule heap_eatPlayer)
    done
qed

lemma fl_132_tie: "fl (Fin (116 - 1 / 2 ^ 46 + 16)) = Fin 132"
  by (rule fl_tie_odd [where n = 7 and m = 4644337115725823]) simp_all

lemma fl_sqrt_132: "fl (Math_sqrt (Fin 132)) = Fin (6467802548588784 / 2 ^ 49)"
  by (rule fl_sqrt [where n = 3 and m = 6467802548588784]) (simp_all add: power2_eq_square)

lemma fl_square_132:
  "fl (Fin (6467802548588784 / 2 ^ 49 * (6467802548588784 / 2 ^ 49))) = Fin 132"
  by (rule fl_eq [where n = 7 and m = 4644337115725824]) simp_all

lemma fl_148: "fl (Fin (132 + 16)) = Fin 148"
  by (rule fl_eq [where n = 7 and m = 5207287069147136]) simp_all

lemma fl_sqrt_148: "fl (Math_sqrt (Fin 148)) = Fin (6848581766208569 / 2 ^ 49)"
  by (rule fl_sqrt [where n = 3 and m = 6848581766208569]) (simp_all add: power2_eq_square)

lemma fl_square_148:
  "fl (Fin (6848581766208569 / 2 ^ 49 * (6848581766208569 / 2 ^ 49))) = Fin (148 - 1 / 2 ^ 45)"
  by (rule fl_eq [where n = 7 and m = 5207287069147135]) simp_all

lemma fl_164_down: "fl (Fin (148 - 1 / 2 ^ 45 + 16)) = Fin (164 - 1 / 2 ^ 45)"
  by (rule fl_eq [where n = 7 and m = 5770237022568447]) simp_all

lemma fl_sqrt_164_down:
  "fl (Math_sqrt (Fin (164 - 1 / 2 ^ 45))) = Fin (7209276982427392 / 2 ^ 49)"
  by (rule fl_sqrt [where n = 3 and m = 7209276982427392]) (simp_all add: power2_eq_square)

lemma areas: "area_of Pellet = Fin 16" "area_of (Victim twin) = Fin 100"
  "radius baseline = Fin 10"
  by (simp_all add: PELLET_RADIUS_def twin_def baseline_def INITIAL_RADIUS_def)

lemma grown_victim_pellet:
  "radius (fold (consume_rd fl) [Victim twin, Pellet] baseline) = Fin (8273640819634630 / 2 ^ 49)"
  "score (fold (consume_rd fl) [Victim twin, Pellet] baseline) = Fin (216 + 1 / 2 ^ 45)"
proof -
  note 1 = consume_value [OF areas(3) areas(2) fl_100(1) fl_100(2) fl_200 fl_sqrt_200]
  note 2 = consume_value [OF 1(1) areas(1) fl_square_200 fl_16 fl_216_up fl_sqrt_216_up]
  from 2 show
    "radius (fold (consume_rd fl) [Victim twin, Pellet] baseline) = Fin (8273640819634630 / 2 ^ 49)"
    "score (fold (consume_rd fl) [Victim twin, Pellet] baseline) = Fin (216 + 1 / 2 ^ 45)"
    by simp_all
qed

lemma grown_pellet_victim:
  "radius (fold (consume_rd fl) [Pellet, Victim twin] baseline) = Fin (8273640819634630 / 2 ^ 49)"
  "score (fold (consume_rd fl) [Pellet, Victim twin] baseline) = Fin 216"
proof -
  note 1 = consume_value [OF areas(3) areas(1) fl_100(1) fl_16 fl_116 fl_sqrt_116]
  note 2 = consume_value [OF 1(1) areas(2) fl_square_116 fl_100(2) fl_216_tie fl_sqrt_216]
  from 2 show
    "radius (fold (consume_rd fl) [Pellet, Victim twin] baseline) = Fin (8273640819634630 / 2 ^ 49)"
    "score (fold (consume_rd fl) [Pellet, Victim twin] baseline) = Fin 216"
    by simp_all
qed

lemma grown_four_pellets:
  "radius (fold (consume_rd fl) [Pellet, Pellet, Pellet, Pellet] baseline)
     = Fin (7209276982427392 / 2 ^ 49)"
  "score (fold (consume_rd fl) [Pellet, Pellet, Pellet, Pellet] baseline) = Fin (164 - 1 / 2 ^ 45)"
proof -
  note 1 = consume_value [OF areas(3) areas(1) fl_100(1) fl_16 fl_116 fl_sqrt_116]
  note 2 = consume_value [OF 1(1) areas(1) fl_square_116 fl_16 fl_132_tie fl_sqrt_132]
  note 3 = consume_value [OF 2(1) areas(1) fl_square_132 fl_16 fl_148 fl_sqrt_148]
  note 4 = consume_value [OF 3(1) areas(1) fl_square_148 fl_16 fl_164_down fl_sqrt_164_down]
  from 4 show
    "radius (fold (consume_rd fl) [Pellet, Pellet, Pellet, Pellet] baseline)
       = Fin (7209276982427392 / 2 ^ 49)"
    "score (fold (consume_rd fl) [Pellet, Pellet, Pellet, Pellet] baseline) = Fin (164 - 1 / 2 ^ 45)"
    by simp_all
qed

lemma total_164:
  "radius baseline * radius baseline + sum_list (map area_of [Pellet, Pellet, Pellet, Pellet])
     = Fin 164"
  by (simp add: areas del: area_of.simps)

lemma total_216:
  "radius baseline * radius baseline + sum_list (map area_of [Victim twin, Pellet]) = Fin 216"
  by (simp add: areas del: area_of.simps)

lemma nominal_216: "10 * 10 + sum_list (map nominal [Victim twin, Pellet]) = 216"
  by (simp add: twin_def)

theorem C7_area_additivity_witness:
  "radius baseline = Fin 10 \<and> (1::real) \<le> 10 \<and> edible (Victim twin) \<and> edible Pellet \<and>
   isFinite (radius (fold (consume_rd fl) [Victim twin, Pellet] baseline)) \<and>
   radius baseline * radius baseline + sum_list (map area_of [Victim twin, Pellet]) = Fin 216 \<and>
   score (fold (consume_rd fl) [Victim twin, Pellet] baseline) = Fin (216 + 1 / 2 ^ 45) \<and>
   near 8 (216 + 1 / 2 ^ 45) 216 \<and>
   score (fold consume [Victim twin, Pellet] baseline) = Fin 216"
proof -
  have e: "\<forall>m \<in> set [Victim twin, Pellet]. edible m" "edible (Victim twin)" "edible Pellet"
    by (simp_all add: twin_def)
  have f: "isFinite (radius (fold (consume_rd fl) [Victim twin, Pellet] baseline))"
    by (simp only: grown_victim_pellet isFinite.simps)
  have l: "(1::real) \<le> 10" by simp
  have n: "[Victim twin, Pellet] \<noteq> []" "4 * length [Victim twin, Pellet] = 8" by simp_all
  note th = C7_area_additivity [OF areas(3) l e(1) f, where k = 1 and i = 0 and s = duel
      and a = 1 and b = 2 and e = "[]", unfolded nominal_216 n(2)]
  note t = th [THEN conjunct1]
  note u = th [THEN conjunct2, THEN conjunct2, THEN conjunct1, rule_format, OF n(1)]
  note v = th [THEN conjunct2, THEN conjunct2, THEN conjunct2, THEN conjunct2, THEN conjunct1]
  from u have "near 8 (real_of (score (fold (consume_rd fl) [Victim twin, Pellet] baseline))) 216"
    by (rule conjunct2 [THEN conjunct1])
  then have 1: "near 8 (216 + 1 / 2 ^ 45) 216"
    by (simp only: grown_victim_pellet(2) real_of.simps)
  from v have "consume_rd (\<lambda>v. v) = consume" by (intro ext) simp
  with u have 2: "score (fold consume [Victim twin, Pellet] baseline) = Fin 216"
    by (simp only:)
  show ?thesis
    apply (intro conjI)
    apply (rule areas(3))
    apply (rule l)
    apply (rule e(2))
    apply (rule e(3))
    apply (rule f)
    apply (rule t)
    apply (rule grown_victim_pellet(2))
    apply (rule 1)
    apply (rule 2)
    done
qed

text \<open>
  The claim C7 as stated fails: the doubles round, and the result depends on the order.
  A player at the baseline radius 10 that eats a player of radius 10 and then a pellet has
  the score \<open>216.00000000000003 = 216 + 2^-45\<close>; when it eats the pellet first and the
  player second its score is \<open>216\<close>. The exact total is 216 in both orders. After four
  pellets the score is \<open>163.99999999999997 = 164 - 2^-45\<close> (the score of \<open>veteran\<close>),
  not 164.
\<close>

theorem C7_counterexample:
  "mset [Pellet, Victim twin] = mset [Victim twin, Pellet] \<and>
   radius baseline * radius baseline + sum_list (map area_of [Victim twin, Pellet]) = Fin 216 \<and>
   score (fold (consume_rd fl) [Victim twin, Pellet] baseline) = Fin (216 + 1 / 2 ^ 45) \<and>
   score (fold (consume_rd fl) [Pellet, Victim twin] baseline) = Fin 216 \<and>
   (216 + 1 / 2 ^ 45 :: real) \<noteq> 216 \<and>
   radius baseline * radius baseline + sum_list (map area_of [Pellet, Pellet, Pellet, Pellet])
     = Fin 164 \<and>
   score (fold (consume_rd fl) [Pellet, Pellet, Pellet, Pellet] baseline) = Fin (164 - 1 / 2 ^ 45) \<and>
   (164 - 1 / 2 ^ 45 :: real) \<noteq> 164"
proof -
  have 1: "mset [Pellet, Victim twin] = mset [Victim twin, Pellet]" by simp
  have 2: "(216 + 1 / 2 ^ 45 :: real) \<noteq> 216" by simp
  have 3: "(164 - 1 / 2 ^ 45 :: real) \<noteq> 164" by simp
  show ?thesis
    apply (intro conjI)
    apply (rule 1)
    apply (rule total_216)
    apply (rule grown_victim_pellet(2))
    apply (rule grown_pellet_victim(2))
    apply (rule 2)
    apply (rule total_164)
    apply (rule grown_four_pellets(2))
    apply (rule 3)
    done
qed

end
